theory Spec2Isabelle
  imports Complex_Main
begin

section \<open>Python strings\<close>

text \<open>
  A Python \<open>str\<close> is a sequence of code points. The model uses \<^typ>\<open>string\<close>, reading
  each \<^typ>\<open>char\<close> as one code point in the range 0..255 (Latin-1); \<open>str.strip\<close>,
  \<open>str.lower\<close> and the regular expression of \<open>strip_thinking\<close> map that range into itself.
\<close>

text \<open>\<open>str.isspace\<close> on one code point below 256: TAB, LF, VT, FF, CR, FS, GS, RS, US, SPACE,
  NEL (0x85) and NBSP (0xA0).\<close>

definition py_isspace :: "char \<Rightarrow> bool" where
  "py_isspace c = ((of_char c :: nat) \<in> {9, 10, 11, 12, 13, 28, 29, 30, 31, 32, 133, 160})"

text \<open>\<open>s.strip()\<close>: leading and trailing whitespace removed.\<close>

definition py_strip :: "string \<Rightarrow> string" where
  "py_strip s = rev (dropWhile py_isspace (rev (dropWhile py_isspace s)))"

text \<open>\<open>str.lower\<close> on one code point below 256: A..Z and the Latin-1 capitals
  0xC0..0xDE (without the multiplication sign 0xD7) move up by 32.\<close>

definition py_lower_char :: "char \<Rightarrow> char" where
  "py_lower_char c =
     (let n = (of_char c :: nat)
      in if (65 \<le> n \<and> n \<le> 90) \<or> (192 \<le> n \<and> n \<le> 222 \<and> n \<noteq> 215)
         then char_of (n + 32) else c)"

definition py_lower :: "string \<Rightarrow> string" where
  "py_lower s = map py_lower_char s"

section \<open>The response sanitizer (\<open>llm.py\<close>, \<open>strip_thinking\<close>)\<close>

definition think_open :: string where
  "think_open = ''<think>''"

definition think_close :: string where
  "think_close = ''</think>''"

text \<open>The text after the first occurrence of \<open></think>\<close> in \<open>s\<close>, if there is one: where the
  non-greedy \<open>.*?</think>\<close> ends when it is started at the head of \<open>s\<close> (with \<open>re.DOTALL\<close> the dot
  matches every character, newlines too).\<close>

fun after_close :: "string \<Rightarrow> string option" where
  "after_close [] = None"
| "after_close (c # cs) =
     (if take 8 (c # cs) = think_close then Some (drop 8 (c # cs)) else after_close cs)"

lemma after_close_length: "after_close s = Some r \<Longrightarrow> length r < length s"
  by (induction s) (auto split: if_splits)

text \<open>\<open>re.sub(r"<think>.*?</think>", "", text, flags=re.DOTALL)\<close>: the scan goes left to right;
  at a position where the pattern matches, the match is dropped and the scan goes on after it;
  elsewhere the character is kept.\<close>

function re_sub_think :: "string \<Rightarrow> string" where
  "re_sub_think [] = []"
| "re_sub_think (c # cs) =
     (if take 7 (c # cs) = think_open
      then (case after_close (drop 7 (c # cs)) of
              Some rest \<Rightarrow> re_sub_think rest
            | None \<Rightarrow> c # re_sub_think cs)
      else c # re_sub_think cs)"
  by pat_completeness auto
termination
proof (relation "measure length")
  show "wf (measure (length :: string \<Rightarrow> nat))" by simp
next
  fix c :: char and cs rest :: string
  assume "after_close (drop 7 (c # cs)) = Some rest"
  then have "length rest < length (drop 7 (c # cs))" by (rule after_close_length)
  then show "(rest, c # cs) \<in> measure length" by simp
qed simp_all

definition strip_thinking :: "string \<Rightarrow> string" where
  "strip_thinking text = py_strip (re_sub_think text)"


text \<open>Whether the marker \<open>m\<close> occurs in \<open>s\<close> as a contiguous substring.\<close>

fun contains :: "string \<Rightarrow> string \<Rightarrow> bool" where
  "contains m [] = (m = [])"
| "contains m (c # cs) = (take (length m) (c # cs) = m \<or> contains m cs)"

text \<open>Whether the pattern \<open><think>.*?</think>\<close> matches somewhere in \<open>s\<close>: an opening marker
  with a closing marker somewhere after it.\<close>

fun has_section :: "string \<Rightarrow> bool" where
  "has_section [] = False"
| "has_section (c # cs) =
     ((take 7 (c # cs) = think_open \<and> after_close (drop 7 (c # cs)) \<noteq> None) \<or> has_section cs)"

text \<open>A text put together from pieces, each followed by a section (opening marker, inside,
  closing marker), and a tail.\<close>

fun with_sections :: "(string \<times> string) list \<Rightarrow> string \<Rightarrow> string" where
  "with_sections [] tail = tail"
| "with_sections ((before, inside) # others) tail =
     before @ think_open @ inside @ think_close @ with_sections others tail"

text \<open>No piece holds an opening marker and no inside holds a closing marker: each section
  starts at the first opening marker and ends at the first closing marker after it.\<close>

fun well_delimited :: "(string \<times> string) list \<Rightarrow> bool" where
  "well_delimited [] = True"
| "well_delimited ((before, inside) # others) =
     (\<not> contains think_open before \<and> \<not> contains think_close inside \<and> well_delimited others)"

section \<open>Python values, exceptions and subscripts\<close>

text \<open>An instance of a subclass of \<open>Exception\<close>: its class name and \<open>str(e)\<close>. The texts of the
  errors the interpreter itself raises are CPython's.\<close>

datatype exn = Exn (exn_class: string) (exn_str: string)

text \<open>The values a parsed JSON body is made of; also the values of \<open>Post.extra_data\<close>.\<close>

datatype json =
    JNull
  | JBool bool
  | JInt int
  | JFloat real
  | JStr string
  | JArr "json list"
  | JObj "(string \<times> json) list"

text \<open>Truth value of a Python object, as \<open>if x:\<close> and \<open>x or y\<close> test it.\<close>

fun truthy :: "json \<Rightarrow> bool" where
  "truthy JNull = False"
| "truthy (JBool b) = b"
| "truthy (JInt n) = (n \<noteq> 0)"
| "truthy (JFloat r) = (r \<noteq> 0)"
| "truthy (JStr s) = (s \<noteq> [])"
| "truthy (JArr xs) = (xs \<noteq> [])"
| "truthy (JObj kvs) = (kvs \<noteq> [])"

fun type_name :: "json \<Rightarrow> string" where
  "type_name JNull = ''NoneType''"
| "type_name (JBool b) = ''bool''"
| "type_name (JInt n) = ''int''"
| "type_name (JFloat r) = ''float''"
| "type_name (JStr s) = ''str''"
| "type_name (JArr xs) = ''list''"
| "type_name (JObj kvs) = ''dict''"

definition not_subscriptable :: "json \<Rightarrow> exn" where
  "not_subscriptable v = Exn ''TypeError'' ([CHR 0x27] @ type_name v @ [CHR 0x27] @ '' object is not subscriptable'')"

text \<open>\<open>v[key]\<close> with a \<open>str\<close> key: a lookup in a dict, \<open>KeyError\<close> when the key is missing,
  \<open>TypeError\<close> on everything else.\<close>

fun getitem_key :: "json \<Rightarrow> string \<Rightarrow> exn + json" where
  "getitem_key (JObj kvs) k =
     (case map_of kvs k of
        Some v \<Rightarrow> Inr v
      | None \<Rightarrow> Inl (Exn ''KeyError'' ([CHR 0x27] @ k @ [CHR 0x27])))"
| "getitem_key (JArr xs) k = Inl (Exn ''TypeError'' ''list indices must be integers or slices, not str'')"
| "getitem_key (JStr s) k =
     Inl (Exn ''TypeError'' (''string indices must be integers, not '' @ [CHR 0x27] @ ''str'' @ [CHR 0x27]))"
| "getitem_key v k = Inl (not_subscriptable v)"

text \<open>\<open>v[0]\<close>: the first element of a list, the first character of a string, \<open>IndexError\<close> when
  they are empty; a dict parsed from JSON has only \<open>str\<close> keys, so \<open>0\<close> is a missing key.\<close>

fun getitem_0 :: "json \<Rightarrow> exn + json" where
  "getitem_0 (JArr []) = Inl (Exn ''IndexError'' ''list index out of range'')"
| "getitem_0 (JArr (x # xs)) = Inr x"
| "getitem_0 (JStr []) = Inl (Exn ''IndexError'' ''string index out of range'')"
| "getitem_0 (JStr (c # cs)) = Inr (JStr [c])"
| "getitem_0 (JObj kvs) = Inl (Exn ''KeyError'' ''0'')"
| "getitem_0 v = Inl (not_subscriptable v)"

text \<open>Sequencing of steps that may raise.\<close>

definition and_then :: "exn + 'a \<Rightarrow> ('a \<Rightarrow> exn + 'b) \<Rightarrow> exn + 'b" where
  "and_then r f = (case r of Inl e \<Rightarrow> Inl e | Inr v \<Rightarrow> f v)"

section \<open>Collaborators and process state\<close>

datatype keypair = Keypair string

record wallet =
  hotkey :: keypair

datatype PlatformType = TWITTER | OTHER_PLATFORM string

text \<open>Modelled from the spec: the class \<open>models.Post\<close> is not among the sources; the fields are
  those of the spec's data model, with \<open>account_id\<close>, which \<open>process\<close> reads from the quoted post.\<close>

record Post =
  post_id :: string
  account_id :: string
  content :: string
  platform_type :: PlatformType
  extra_data :: "(string \<times> json) list"
  topics :: "string list"

text \<open>\<open>d.get(key, default)\<close>.\<close>

definition dict_get :: "(string \<times> json) list \<Rightarrow> string \<Rightarrow> json \<Rightarrow> json" where
  "dict_get d k dflt = (case map_of d k of Some v \<Rightarrow> v | None \<Rightarrow> dflt)"

text \<open>The collaborators outside the sources, each a function of the state \<open>'w\<close> of the outside
  world that returns its result (or the exception it raises) and the new state:
  \<open>constitution_store.get_topic_prompts\<close> (the items of the returned dict, in iteration order),
  \<open>str.format\<close> with the one keyword \<open>tweet_text\<close>, \<open>get_wallet\<close>,
  \<open>async_http_request_with_retry\<close> (method, url, headers, JSON body),
  \<open>TwitterDiscoveryStrategy.get_post\<close> (a result that has no \<open>account_id\<close> counts as the
  \<open>AttributeError\<close> its use raises inside the same \<open>try\<close>), and the two constants \<open>settings.CHUTES_API_KEY\<close> and
  \<open>cst.NUANCE_SOCIAL_ACCOUNT_ID\<close>.\<close>

record 'w env =
  get_topic_prompts :: "'w \<Rightarrow> (exn + (string \<times> string) list) \<times> 'w"
  str_format :: "string \<Rightarrow> string \<Rightarrow> exn + string"
  get_wallet :: "'w \<Rightarrow> (exn + wallet) \<times> 'w"
  async_http_request_with_retry ::
    "string \<Rightarrow> string \<Rightarrow> (string \<times> string) list \<Rightarrow> json \<Rightarrow> 'w \<Rightarrow> (exn + json) \<times> 'w"
  get_post :: "json \<Rightarrow> 'w \<Rightarrow> (exn + Post) \<times> 'w"
  CHUTES_API_KEY :: string
  NUANCE_SOCIAL_ACCOUNT_ID :: string

record LLMService =
  model_name :: string

text \<open>The state of the Python process: the class attribute \<open>LLMService._instance\<close>, the outside
  world, and a trace of the prompts \<open>query_llm\<close> has been called with (kept to count the calls).\<close>

record 'w state =
  cls_instance :: "LLMService option"
  world :: 'w
  llm_calls :: "string list"

section \<open>The LLM service (\<open>llm.py\<close>)\<close>

text \<open>\<open>model_name or "Qwen/Qwen3-8B"\<close>: \<open>None\<close> and the empty string are both false.\<close>

definition str_or :: "string option \<Rightarrow> string \<Rightarrow> string" where
  "str_or a b = (case a of None \<Rightarrow> b | Some x \<Rightarrow> if x \<noteq> [] then x else b)"

definition initialize :: "string option \<Rightarrow> LLMService" where
  "initialize name = \<lparr>model_name = str_or name ''Qwen/Qwen3-8B''\<rparr>"

text \<open>\<open>get_instance\<close> run by one caller from entry to return (the lock is free at entry and at
  return); the interleaving of several callers is modelled further down.\<close>

definition get_instance :: "string option \<Rightarrow> 'w state \<Rightarrow> LLMService \<times> 'w state" where
  "get_instance name s =
     (case cls_instance s of
        None \<Rightarrow> (let inst = initialize name in (inst, s\<lparr>cls_instance := Some inst\<rparr>))
      | Some inst \<Rightarrow> (inst, s))"

text \<open>The \<open>url\<close>, \<open>headers\<close> and \<open>payload\<close> of \<open>_call_model\<close>.\<close>

definition llm_url :: string where
  "llm_url = ''https://llm.chutes.ai/v1/chat/completions''"

definition llm_headers :: "'w env \<Rightarrow> (string \<times> string) list" where
  "llm_headers E = [(''Authorization'', ''Bearer '' @ CHUTES_API_KEY E),
                    (''Content-Type'', ''application/json'')]"

definition llm_payload :: "string \<Rightarrow> string \<Rightarrow> int \<Rightarrow> real \<Rightarrow> real \<Rightarrow> json" where
  "llm_payload model prompt max_tokens temperature top_p =
     JObj [(''model'', JStr model),
           (''messages'', JArr [JObj [(''role'', JStr ''user''), (''content'', JStr prompt)]]),
           (''stream'', JBool False),
           (''max_tokens'', JInt max_tokens),
           (''temperature'', JFloat temperature),
           (''top_p'', JFloat top_p)]"

text \<open>\<open>data["choices"][0]["message"]["content"]\<close>.\<close>

definition choices_0_message_content :: "json \<Rightarrow> exn + json" where
  "choices_0_message_content data =
     and_then (and_then (and_then (getitem_key data ''choices'') getitem_0)
                 (\<lambda>choice. getitem_key choice ''message''))
       (\<lambda>message. getitem_key message ''content'')"

definition call_model ::
  "'w env \<Rightarrow> string \<Rightarrow> string \<Rightarrow> int \<Rightarrow> real \<Rightarrow> real \<Rightarrow> keypair option \<Rightarrow> 'w \<Rightarrow> (exn + json) \<times> 'w"
where
  "call_model E prompt model max_tokens temperature top_p kp w =
     (case async_http_request_with_retry E ''POST'' llm_url (llm_headers E)
             (llm_payload model prompt max_tokens temperature top_p) w of
        (Inl e, w') \<Rightarrow> (Inl e, w')
      | (Inr data, w') \<Rightarrow> (choices_0_message_content data, w'))"

definition query ::
  "'w env \<Rightarrow> LLMService \<Rightarrow> string \<Rightarrow> string option \<Rightarrow> int \<Rightarrow> real \<Rightarrow> real \<Rightarrow> keypair option
     \<Rightarrow> 'w \<Rightarrow> (exn + json) \<times> 'w"
where
  "query E self prompt model max_tokens temperature top_p kp w =
     call_model E prompt (str_or model (model_name self)) max_tokens temperature top_p kp w"

definition query_llm ::
  "'w env \<Rightarrow> string \<Rightarrow> string option \<Rightarrow> int \<Rightarrow> real \<Rightarrow> real \<Rightarrow> keypair option
     \<Rightarrow> 'w state \<Rightarrow> (exn + json) \<times> 'w state"
where
  "query_llm E prompt model max_tokens temperature top_p kp s0 =
     (let s = s0\<lparr>llm_calls := llm_calls s0 @ [prompt]\<rparr>;
          (got, s1) = (case kp of
                         Some k \<Rightarrow> (Inr (Some k), s)
                       | None \<Rightarrow> (case get_wallet E (world s) of
                                    (Inl e, w') \<Rightarrow> (Inl e, s\<lparr>world := w'\<rparr>)
                                  | (Inr wal, w') \<Rightarrow> (Inr (Some (hotkey wal)), s\<lparr>world := w'\<rparr>)))
      in case got of
           Inl e \<Rightarrow> (Inl e, s1)
         | Inr kp' \<Rightarrow>
             (let (service, s2) = get_instance None s1;
                  (r, w3) = query E service prompt model max_tokens temperature top_p kp' (world s2)
              in (r, s2\<lparr>world := w3\<rparr>)))"

text \<open>\<open>strip_thinking\<close> applied to what \<open>query_llm\<close> returned: \<open>re.sub\<close> raises \<open>TypeError\<close> on a
  value that is not a string.\<close>

definition strip_thinking_value :: "json \<Rightarrow> exn + string" where
  "strip_thinking_value v =
     (case v of
        JStr text \<Rightarrow> Inr (strip_thinking text)
      | _ \<Rightarrow> Inl (Exn ''TypeError''
                 (''expected string or bytes-like object, got '' @ [CHR 0x27] @ type_name v @ [CHR 0x27])))"


section \<open>The topic tagger (\<open>topic_tagger.py\<close>)\<close>

text \<open>\<open>is_relevant = llm_response.strip().lower() == "true"\<close>.\<close>

definition is_relevant :: "string \<Rightarrow> bool" where
  "is_relevant llm_response = (py_lower (py_strip llm_response) = ''true'')"

text \<open>The loop over \<open>topic_prompts.items()\<close>, with \<open>identified_topics\<close> as accumulator. An
  exception raised by the substitution, by \<open>query_llm\<close> or by \<open>strip_thinking\<close> leaves the loop.\<close>

fun tag_topics ::
  "'w env \<Rightarrow> string \<Rightarrow> (string \<times> string) list \<Rightarrow> string list \<Rightarrow> 'w state
     \<Rightarrow> (exn + string list) \<times> 'w state"
where
  "tag_topics E text [] identified_topics s = (Inr identified_topics, s)"
| "tag_topics E text ((topic, topic_prompt) # rest) identified_topics s =
     (case str_format E topic_prompt text of
        Inl e \<Rightarrow> (Inl e, s)
      | Inr prompt_about \<Rightarrow>
          (case query_llm E prompt_about None 1024 0 (1 / 2) None s of
             (Inl e, s') \<Rightarrow> (Inl e, s')
           | (Inr raw, s') \<Rightarrow>
               (case strip_thinking_value raw of
                  Inl e \<Rightarrow> (Inl e, s')
                | Inr llm_response \<Rightarrow>
                    tag_topics E text rest
                      (if is_relevant llm_response then identified_topics @ [topic]
                       else identified_topics) s')))"

text \<open>The special handling of \<open>nuance_sharing\<close>: the inner \<open>try\<close> block. An exception of
  \<open>get_post\<close> is caught there and only logged.\<close>

definition check_nuance_sharing ::
  "'w env \<Rightarrow> Post \<Rightarrow> string list \<Rightarrow> 'w state \<Rightarrow> string list \<times> 'w state"
where
  "check_nuance_sharing E post identified_topics s =
     (if platform_type post = TWITTER then
        (let is_quote_tweet = dict_get (extra_data post) ''is_quote_tweet'' (JBool False)
         in if truthy is_quote_tweet then
              (let quoted_status_id = dict_get (extra_data post) ''quoted_status_id'' JNull
               in if truthy quoted_status_id then
                    (case get_post E quoted_status_id (world s) of
                       (Inl e, w') \<Rightarrow> (identified_topics, s\<lparr>world := w'\<rparr>)
                     | (Inr quoted_post, w') \<Rightarrow>
                         (if account_id quoted_post = NUANCE_SOCIAL_ACCOUNT_ID E
                          then (identified_topics @ [''nuance_sharing''], s\<lparr>world := w'\<rparr>)
                          else (identified_topics, s\<lparr>world := w'\<rparr>)))
                  else (identified_topics, s))
            else (identified_topics, s))
      else (identified_topics, s))"

text \<open>The body of the outer \<open>try\<close> up to the assignment to \<open>post.topics\<close>: the topics identified,
  or the exception that reaches the outer \<open>except\<close>.\<close>

definition identify_topics ::
  "'w env \<Rightarrow> Post \<Rightarrow> 'w state \<Rightarrow> (exn + string list) \<times> 'w state"
where
  "identify_topics E post s =
     (case get_topic_prompts E (world s) of
        (Inl e, w') \<Rightarrow> (Inl e, s\<lparr>world := w'\<rparr>)
      | (Inr topic_prompts, w') \<Rightarrow>
          (case tag_topics E (content post) topic_prompts [] (s\<lparr>world := w'\<rparr>) of
             (Inl e, s') \<Rightarrow> (Inl e, s')
           | (Inr identified_topics, s') \<Rightarrow>
               (case check_nuance_sharing E post identified_topics s' of
                  (topics', s'') \<Rightarrow> (Inr topics', s''))))"

text \<open>Modelled from the spec: \<open>ProcessingStatus\<close> and \<open>ProcessingResult\<close> are not among the
  sources; the result has the fields \<open>process\<close> passes, the ones it leaves out being \<open>None\<close>.\<close>

datatype ProcessingStatus = ACCEPTED | ERROR

record ProcessingResult =
  status :: ProcessingStatus
  result_output :: Post
  processor_name :: string
  details :: "(string \<times> json) list option"
  reason :: "string option"

definition process :: "'w env \<Rightarrow> Post \<Rightarrow> 'w state \<Rightarrow> ProcessingResult \<times> 'w state" where
  "process E input_data s =
     (let post = input_data
      in case identify_topics E post s of
           (Inr identified_topics, s') \<Rightarrow>
             (\<lparr>status = ACCEPTED,
               result_output = post\<lparr>topics := identified_topics\<rparr>,
               processor_name = ''topic_tagger'',
               details = Some [(''topics'', JArr (map JStr identified_topics)),
                               (''topic_count'', JInt (int (length identified_topics)))],
               reason = None\<rparr>, s')
         | (Inl e, s') \<Rightarrow>
             (\<lparr>status = ERROR,
               result_output = post,
               processor_name = ''topic_tagger'',
               details = None,
               reason = Some (''Error tagging topics: '' @ exn_str e)\<rparr>, s'))"

subsection \<open>Answers, relevant topics and the quote relationship\<close>

text \<open>The sanitized answers of the LLM to the prompts of the mapping, asked one after the other in
  iteration order: the calls of the loop without the classification.\<close>

fun llm_answers ::
  "'w env \<Rightarrow> string \<Rightarrow> (string \<times> string) list \<Rightarrow> 'w state \<Rightarrow> (exn + string list) \<times> 'w state"
where
  "llm_answers E text [] s = (Inr [], s)"
| "llm_answers E text ((topic, topic_prompt) # rest) s =
     (case str_format E topic_prompt text of
        Inl e \<Rightarrow> (Inl e, s)
      | Inr prompt_about \<Rightarrow>
          (case query_llm E prompt_about None 1024 0 (1 / 2) None s of
             (Inl e, s') \<Rightarrow> (Inl e, s')
           | (Inr raw, s') \<Rightarrow>
               (case strip_thinking_value raw of
                  Inl e \<Rightarrow> (Inl e, s')
                | Inr llm_response \<Rightarrow>
                    (case llm_answers E text rest s' of
                       (Inl e, s'') \<Rightarrow> (Inl e, s'')
                     | (Inr answers, s'') \<Rightarrow> (Inr (llm_response # answers), s'')))))"

text \<open>The topics of the mapping, in its order, whose answer is the literal \<open>true\<close> once trimmed and
  lower-cased.\<close>

fun relevant_topics :: "(string \<times> string) list \<Rightarrow> string list \<Rightarrow> string list" where
  "relevant_topics ((topic, topic_prompt) # rest) (answer # answers) =
     (if py_lower (py_strip answer) = ''true'' then topic # relevant_topics rest answers
      else relevant_topics rest answers)"
| "relevant_topics _ _ = []"

text \<open>The quote relationship matches: a Twitter post marked as a quote tweet, with a quoted status
  id, whose quoted post can be fetched and comes from the Nuance account.\<close>

definition quotes_nuance :: "'w env \<Rightarrow> Post \<Rightarrow> 'w \<Rightarrow> bool" where
  "quotes_nuance E post w =
     (platform_type post = TWITTER
      \<and> truthy (dict_get (extra_data post) ''is_quote_tweet'' (JBool False))
      \<and> truthy (dict_get (extra_data post) ''quoted_status_id'' JNull)
      \<and> (case fst (get_post E (dict_get (extra_data post) ''quoted_status_id'' JNull) w) of
            Inl e \<Rightarrow> False
          | Inr quoted_post \<Rightarrow> account_id quoted_post = NUANCE_SOCIAL_ACCOUNT_ID E))"

text \<open>The content field of the first completion choice of a response body, where the body has
  one: an object whose \<open>choices\<close> is a non-empty list, whose first element is an object with a
  \<open>message\<close> object that has a \<open>content\<close>.\<close>

definition first_choice_content :: "json \<Rightarrow> json option" where
  "first_choice_content data =
     (case data of
        JObj body \<Rightarrow>
          (case map_of body ''choices'' of
             Some (JArr (JObj choice # others)) \<Rightarrow>
               (case map_of choice ''message'' of
                  Some (JObj message) \<Rightarrow> map_of message ''content''
                | _ \<Rightarrow> None)
           | _ \<Rightarrow> None)
      | _ \<Rightarrow> None)"


section \<open>Concurrent callers of \<open>get_instance\<close>\<close>

text \<open>Where a caller of \<open>get_instance\<close> stands: waiting at \<open>async with cls._lock\<close>; holding the
  lock, before the test \<open>cls._instance is None\<close>; having created the object with the given
  identity, before \<open>_initialize\<close>; having initialized it, before the assignment to
  \<open>cls._instance\<close>; before \<open>return cls._instance\<close>; returned with a value.\<close>

datatype pc =
    AtLock
  | AtTest
  | AtInitialize nat
  | AtPublish nat
  | AtReturn
  | Returned "nat option"





text \<open>Holding the lock.\<close>

fun in_lock :: "pc \<Rightarrow> bool" where
  "in_lock AtLock = False"
| "in_lock (Returned v) = False"
| "in_lock _ = True"



section \<open>Cancellation of the task that runs \<open>process\<close>\<close>

text \<open>
  What an \<open>await\<close> inside \<open>process\<close> can raise: an instance of \<open>Exception\<close>, or
  \<open>asyncio.CancelledError\<close>, which derives from \<open>BaseException\<close> and not from \<open>Exception\<close>
  (Python 3.8 and later) and which the event loop raises at the \<open>await\<close> where a cancelled task
  is suspended. \<open>except Exception\<close> catches the first and lets the second pass.
\<close>

datatype raised = Exc exn | CancelledError

text \<open>The \<open>await\<close> of a collaborator, where \<open>cancel_now w\<close> says that the task is cancelled
  while it is suspended there with the outside world in state \<open>w\<close>.\<close>

definition awaited ::
  "('w \<Rightarrow> bool) \<Rightarrow> ('w \<Rightarrow> (exn + 'a) \<times> 'w) \<Rightarrow> 'w \<Rightarrow> (raised + 'a) \<times> 'w"
where
  "awaited cancel_now f w =
     (if cancel_now w then (Inl CancelledError, w)
      else (case f w of
              (Inl e, w') \<Rightarrow> (Inl (Exc e), w')
            | (Inr v, w') \<Rightarrow> (Inr v, w')))"

text \<open>\<open>query_llm\<close>, \<open>process\<close> and what lies between them once more, with the awaits of the
  collaborators open to cancellation: \<open>get_wallet\<close> and the request of \<open>service.query\<close> in
  \<open>query_llm\<close>, \<open>get_topic_prompts\<close> and \<open>get_post\<close> in \<open>process\<close>. The inner and the outer handler
  are both \<open>except Exception\<close>.\<close>

definition query_llm_cancellable ::
  "('w \<Rightarrow> bool) \<Rightarrow> 'w env \<Rightarrow> string \<Rightarrow> string option \<Rightarrow> int \<Rightarrow> real \<Rightarrow> real \<Rightarrow> keypair option
     \<Rightarrow> 'w state \<Rightarrow> (raised + json) \<times> 'w state"
where
  "query_llm_cancellable cancel_now E prompt model max_tokens temperature top_p kp s0 =
     (let s = s0\<lparr>llm_calls := llm_calls s0 @ [prompt]\<rparr>;
          (got, s1) = (case kp of
                         Some k \<Rightarrow> (Inr (Some k), s)
                       | None \<Rightarrow> (case awaited cancel_now (get_wallet E) (world s) of
                                    (Inl x, w') \<Rightarrow> (Inl x, s\<lparr>world := w'\<rparr>)
                                  | (Inr wal, w') \<Rightarrow> (Inr (Some (hotkey wal)), s\<lparr>world := w'\<rparr>)))
      in case got of
           Inl x \<Rightarrow> (Inl x, s1)
         | Inr kp' \<Rightarrow>
             (let (service, s2) = get_instance None s1;
                  (r, w3) = awaited cancel_now
                              (query E service prompt model max_tokens temperature top_p kp')
                              (world s2)
              in (r, s2\<lparr>world := w3\<rparr>)))"

fun tag_topics_cancellable ::
  "('w \<Rightarrow> bool) \<Rightarrow> 'w env \<Rightarrow> string \<Rightarrow> (string \<times> string) list \<Rightarrow> string list \<Rightarrow> 'w state
     \<Rightarrow> (raised + string list) \<times> 'w state"
where
  "tag_topics_cancellable cancel_now E text [] identified_topics s = (Inr identified_topics, s)"
| "tag_topics_cancellable cancel_now E text ((topic, topic_prompt) # rest) identified_topics s =
     (case str_format E topic_prompt text of
        Inl e \<Rightarrow> (Inl (Exc e), s)
      | Inr prompt_about \<Rightarrow>
          (case query_llm_cancellable cancel_now E prompt_about None 1024 0 (1 / 2) None s of
             (Inl x, s') \<Rightarrow> (Inl x, s')
           | (Inr raw, s') \<Rightarrow>
               (case strip_thinking_value raw of
                  Inl e \<Rightarrow> (Inl (Exc e), s')
                | Inr llm_response \<Rightarrow>
                    tag_topics_cancellable cancel_now E text rest
                      (if is_relevant llm_response then identified_topics @ [topic]
                       else identified_topics) s')))"

definition check_nuance_sharing_cancellable ::
  "('w \<Rightarrow> bool) \<Rightarrow> 'w env \<Rightarrow> Post \<Rightarrow> string list \<Rightarrow> 'w state
     \<Rightarrow> (raised + string list) \<times> 'w state"
where
  "check_nuance_sharing_cancellable cancel_now E post identified_topics s =
     (if platform_type post = TWITTER then
        (let is_quote_tweet = dict_get (extra_data post) ''is_quote_tweet'' (JBool False)
         in if truthy is_quote_tweet then
              (let quoted_status_id = dict_get (extra_data post) ''quoted_status_id'' JNull
               in if truthy quoted_status_id then
                    (case awaited cancel_now (get_post E quoted_status_id) (world s) of
                       (Inl CancelledError, w') \<Rightarrow> (Inl CancelledError, s\<lparr>world := w'\<rparr>)
                     | (Inl (Exc e), w') \<Rightarrow> (Inr identified_topics, s\<lparr>world := w'\<rparr>)
                     | (Inr quoted_post, w') \<Rightarrow>
                         (if account_id quoted_post = NUANCE_SOCIAL_ACCOUNT_ID E
                          then (Inr (identified_topics @ [''nuance_sharing'']), s\<lparr>world := w'\<rparr>)
                          else (Inr identified_topics, s\<lparr>world := w'\<rparr>)))
                  else (Inr identified_topics, s))
            else (Inr identified_topics, s))
      else (Inr identified_topics, s))"

definition identify_topics_cancellable ::
  "('w \<Rightarrow> bool) \<Rightarrow> 'w env \<Rightarrow> Post \<Rightarrow> 'w state \<Rightarrow> (raised + string list) \<times> 'w state"
where
  "identify_topics_cancellable cancel_now E post s =
     (case awaited cancel_now (get_topic_prompts E) (world s) of
        (Inl x, w') \<Rightarrow> (Inl x, s\<lparr>world := w'\<rparr>)
      | (Inr topic_prompts, w') \<Rightarrow>
          (case tag_topics_cancellable cancel_now E (content post) topic_prompts []
                  (s\<lparr>world := w'\<rparr>) of
             (Inl x, s') \<Rightarrow> (Inl x, s')
           | (Inr identified_topics, s') \<Rightarrow>
               check_nuance_sharing_cancellable cancel_now E post identified_topics s'))"

text \<open>\<open>process\<close> as the task runs it: a result, or the \<open>CancelledError\<close> that leaves it.\<close>

definition process_cancellable ::
  "('w \<Rightarrow> bool) \<Rightarrow> 'w env \<Rightarrow> Post \<Rightarrow> 'w state \<Rightarrow> (raised + ProcessingResult) \<times> 'w state"
where
  "process_cancellable cancel_now E input_data s =
     (let post = input_data
      in case identify_topics_cancellable cancel_now E post s of
           (Inr identified_topics, s') \<Rightarrow>
             (Inr \<lparr>status = ACCEPTED,
                   result_output = post\<lparr>topics := identified_topics\<rparr>,
                   processor_name = ''topic_tagger'',
                   details = Some [(''topics'', JArr (map JStr identified_topics)),
                                   (''topic_count'', JInt (int (length identified_topics)))],
                   reason = None\<rparr>, s')
         | (Inl (Exc e), s') \<Rightarrow>
             (Inr \<lparr>status = ERROR,
                   result_output = post,
                   processor_name = ''topic_tagger'',
                   details = None,
                   reason = Some (''Error tagging topics: '' @ exn_str e)\<rparr>, s')
         | (Inl CancelledError, s') \<Rightarrow> (Inl CancelledError, s'))"

text \<open>A result or exception of the model without cancellation, read as one of the model with
  it.\<close>

definition as_raised :: "(exn + 'a) \<times> 's \<Rightarrow> (raised + 'a) \<times> 's" where
  "as_raised r = (case r of (Inl e, s) \<Rightarrow> (Inl (Exc e), s) | (Inr v, s) \<Rightarrow> (Inr v, s))"

text \<open>A task cancelled at its first suspension, and a task that is never cancelled.\<close>

definition cancelled_at_once :: "'w \<Rightarrow> bool" where
  "cancelled_at_once w = True"

definition never_cancelled :: "'w \<Rightarrow> bool" where
  "never_cancelled w = False"

section \<open>A scripted environment\<close>

text \<open>An environment for running the model on concrete inputs. The outside world is the list of
  the texts the remote endpoint will answer with, one per request; a request with no answer left
  fails. The prompt mapping and the result of the post lookup are given; the substitution puts the
  post's text behind the template.\<close>

definition scripted_body :: "string \<Rightarrow> json" where
  "scripted_body text =
     JObj [(''choices'',
            JArr [JObj [(''index'', JInt 0),
                        (''message'', JObj [(''role'', JStr ''assistant''), (''content'', JStr text)])]])]"

definition scripted_env ::
  "exn + (string \<times> string) list \<Rightarrow> exn + Post \<Rightarrow> (string list) env"
where
  "scripted_env prompts quoted =
     \<lparr>get_topic_prompts = (\<lambda>w. (prompts, w)),
      str_format = (\<lambda>template text. Inr (template @ text)),
      get_wallet = (\<lambda>w. (Inr \<lparr>hotkey = Keypair ''hotkey''\<rparr>, w)),
      async_http_request_with_retry =
        (\<lambda>method url headers body w.
           case w of
             [] \<Rightarrow> (Inl (Exn ''ClientError'' ''request failed''), [])
           | answer # later \<Rightarrow> (Inr (scripted_body answer), later)),
      get_post = (\<lambda>quoted_status_id w. (quoted, w)),
      CHUTES_API_KEY = ''key'',
      NUANCE_SOCIAL_ACCOUNT_ID = ''nuance''\<rparr>"

definition fresh_state :: "string list \<Rightarrow> (string list) state" where
  "fresh_state answers = \<lparr>cls_instance = None, world = answers, llm_calls = []\<rparr>"

definition plain_post :: Post where
  "plain_post =
     \<lparr>post_id = ''1'', account_id = ''alice'', content = ''some text'', platform_type = TWITTER,
      extra_data = [], topics = [''old'']\<rparr>"

definition quote_post :: Post where
  "quote_post =
     plain_post\<lparr>extra_data := [(''is_quote_tweet'', JBool True), (''quoted_status_id'', JStr ''77'')]\<rparr>"

definition abc_prompts :: "(string \<times> string) list" where
  "abc_prompts = [(''A'', ''Is it about A? ''), (''B'', ''Is it about B? ''), (''C'', ''Is it about C? '')]"

section \<open>Properties of the sanitizer\<close>

lemma length_think_open: "length think_open = 7"
  by (simp add: think_open_def)

lemma length_think_close: "length think_close = 8"
  by (simp add: think_close_def)

lemma dropWhile_rev_keep:
  assumes "t \<noteq> []" "\<not> P (hd t)"
  shows "dropWhile P (rev (dropWhile P (rev t))) = rev (dropWhile P (rev t))"
proof -
  obtain x xs where t: "t = x # xs" using assms(1) by (cases t) auto
  have "dropWhile P (rev xs @ [x]) = dropWhile P (rev xs) @ [x]"
    using assms(2) t by (simp add: dropWhile_append)
  then have "rev (dropWhile P (rev t)) = x # rev (dropWhile P (rev xs))"
    using t by simp
  then show ?thesis using assms(2) t by simp
qed

lemma py_strip_idem: "py_strip (py_strip s) = py_strip s"
proof (cases "dropWhile py_isspace s = []")
  case True
  have e: "py_strip s = []" unfolding py_strip_def True by simp
  have "py_strip [] = []" by (simp add: py_strip_def)
  then show ?thesis by (simp only: e)
next
  case False
  then have "\<not> py_isspace (hd (dropWhile py_isspace s))" by (rule hd_dropWhile)
  with False have "dropWhile py_isspace (rev (dropWhile py_isspace (rev (dropWhile py_isspace s))))
      = rev (dropWhile py_isspace (rev (dropWhile py_isspace s)))"
    by (rule dropWhile_rev_keep [where P = py_isspace])
  then show ?thesis by (simp add: py_strip_def)
qed

lemma py_strip_length: "length (py_strip s) \<le> length s"
proof -
  have "length (py_strip s) \<le> length (dropWhile py_isspace s)"
    unfolding py_strip_def using length_dropWhile_le [of py_isspace "rev (dropWhile py_isspace s)"]
    by simp
  also have "\<dots> \<le> length s" by (rule length_dropWhile_le)
  finally show ?thesis .
qed

lemma contains_drop: "\<not> contains m s \<Longrightarrow> \<not> contains m (drop n s)"
proof (induction s arbitrary: n)
  case Nil
  then show ?case by simp
next
  case (Cons c cs)
  show ?case
  proof (cases n)
    case 0
    with Cons.prems show ?thesis by simp
  next
    case (Suc k)
    from Cons.prems have "\<not> contains m cs" by simp
    then have "\<not> contains m (drop k cs)" by (rule Cons.IH)
    with Suc show ?thesis by simp
  qed
qed

lemma no_open_no_section: "\<not> contains think_open s \<Longrightarrow> \<not> has_section s"
  by (induction s) (simp_all add: length_think_open)

lemma no_close_after_close: "\<not> contains think_close s \<Longrightarrow> after_close s = None"
  by (induction s) (simp_all add: length_think_close)

lemma no_close_no_section: "\<not> contains think_close s \<Longrightarrow> \<not> has_section s"
proof (induction s)
  case Nil
  then show ?case by simp
next
  case (Cons c cs)
  have "\<not> contains think_close (drop 7 (c # cs))"
    using Cons.prems by (rule contains_drop)
  then have "after_close (drop 7 (c # cs)) = None" by (rule no_close_after_close)
  moreover have "\<not> has_section cs" using Cons by simp
  ultimately show ?case by simp
qed

lemma re_sub_think_id: "\<not> has_section s \<Longrightarrow> re_sub_think s = s"
  by (induction s) (auto split: option.splits)

lemma re_sub_think_length: "length (re_sub_think s) \<le> length s"
proof (induction s rule: re_sub_think.induct)
  case 1
  then show ?case by simp
next
  case (2 c cs)
  show ?case
  proof (cases "take 7 (c # cs) = think_open")
    case True
    show ?thesis
    proof (cases "after_close (drop 7 (c # cs))")
      case None
      with True 2 show ?thesis by simp
    next
      case (Some rest)
      have "length (re_sub_think rest) \<le> length rest" by (rule 2(2) [OF True Some])
      moreover have "length rest < length (drop 7 (c # cs))"
        using Some by (rule after_close_length)
      ultimately show ?thesis using True Some by simp
    qed
  next
    case False
    with 2 show ?thesis by simp
  qed
qed

lemma re_sub_think_shrinks: "has_section s \<Longrightarrow> length (re_sub_think s) < length s"
proof (induction s rule: re_sub_think.induct)
  case 1
  then show ?case by simp
next
  case (2 c cs)
  show ?case
  proof (cases "take 7 (c # cs) = think_open")
    case True
    show ?thesis
    proof (cases "after_close (drop 7 (c # cs))")
      case None
      with True 2 show ?thesis by simp
    next
      case (Some rest)
      have "length (re_sub_think rest) \<le> length rest" by (rule re_sub_think_length)
      moreover have "length rest < length (drop 7 (c # cs))"
        using Some by (rule after_close_length)
      ultimately show ?thesis using True Some by simp
    qed
  next
    case False
    with 2 show ?thesis by simp
  qed
qed


lemma re_sub_think_open:
  "s \<noteq> [] \<Longrightarrow> take 7 s = think_open \<Longrightarrow> after_close (drop 7 s) = Some rest
   \<Longrightarrow> re_sub_think s = re_sub_think rest"
  by (cases s) simp_all

lemma re_sub_think_keep:
  "take 7 (c # cs) \<noteq> think_open \<Longrightarrow> re_sub_think (c # cs) = c # re_sub_think cs"
  by simp

lemma after_close_here:
  "s \<noteq> [] \<Longrightarrow> take 8 s = think_close \<Longrightarrow> after_close s = Some (drop 8 s)"
  by (cases s) simp_all

lemma after_close_skip:
  "take 8 (c # cs) \<noteq> think_close \<Longrightarrow> after_close (c # cs) = after_close cs"
  by simp

lemma no_straddle:
  assumes first: "m \<noteq> []"
    and inner: "\<forall>i. 0 < i \<and> i < length m \<longrightarrow> m ! i \<noteq> m ! 0"
    and ne: "xs \<noteq> []"
    and tk: "take (length m) (xs @ m @ ys) = m"
  shows "take (length m) xs = m"
proof (cases "length xs < length m")
  case True
  have "take (length m) (xs @ m @ ys) ! length xs = (xs @ m @ ys) ! length xs"
    by (rule nth_take) (rule True)
  also have "\<dots> = m ! 0" using first by (simp add: nth_append)
  finally have "m ! length xs = m ! 0" using tk by simp
  moreover have "0 < length xs" using ne by simp
  ultimately show ?thesis using inner True by blast
next
  case False
  then show ?thesis using tk by simp
qed

lemma think_open_inner: "\<forall>i. 0 < i \<and> i < length think_open \<longrightarrow> think_open ! i \<noteq> think_open ! 0"
proof (intro allI impI)
  fix i assume "0 < i \<and> i < length think_open"
  then have "i \<in> {1, 2, 3, 4, 5, 6}" by (auto simp: think_open_def)
  then show "think_open ! i \<noteq> think_open ! 0" by (auto simp: think_open_def)
qed

lemma think_close_inner: "\<forall>i. 0 < i \<and> i < length think_close \<longrightarrow> think_close ! i \<noteq> think_close ! 0"
proof (intro allI impI)
  fix i assume "0 < i \<and> i < length think_close"
  then have "i \<in> {1, 2, 3, 4, 5, 6, 7}" by (auto simp: think_close_def)
  then show "think_close ! i \<noteq> think_close ! 0" by (auto simp: think_close_def)
qed

lemma think_open_ne: "think_open \<noteq> []"
  by (simp add: think_open_def)

lemma think_close_ne: "think_close \<noteq> []"
  by (simp add: think_close_def)

lemma after_close_first:
  "\<not> contains think_close mid \<Longrightarrow> after_close (mid @ think_close @ rest) = Some rest"
proof (induction mid)
  case Nil
  have "think_close @ rest \<noteq> []" using think_close_ne by simp
  moreover have "take 8 (think_close @ rest) = think_close"
    by (simp add: length_think_close)
  ultimately have "after_close (think_close @ rest) = Some (drop 8 (think_close @ rest))"
    by (rule after_close_here)
  then show ?case by (simp add: length_think_close)
next
  case (Cons c cs)
  have "take 8 (c # (cs @ think_close @ rest)) \<noteq> think_close"
  proof
    assume "take 8 (c # (cs @ think_close @ rest)) = think_close"
    then have tk: "take (length think_close) ((c # cs) @ think_close @ rest) = think_close"
      by (simp only: length_think_close append_Cons)
    have "take (length think_close) (c # cs) = think_close"
      by (rule no_straddle [OF think_close_ne think_close_inner _ tk]) simp
    with Cons.prems show False by simp
  qed
  then have "after_close (c # (cs @ think_close @ rest)) = after_close (cs @ think_close @ rest)"
    by (rule after_close_skip)
  moreover have "after_close (cs @ think_close @ rest) = Some rest"
    using Cons by simp
  ultimately show ?case by (simp only: append_Cons)
qed

lemma re_sub_think_section:
  assumes "\<not> contains think_open pre" "\<not> contains think_close mid"
  shows "re_sub_think (pre @ think_open @ mid @ think_close @ rest) = pre @ re_sub_think rest"
  using assms(1)
proof (induction pre)
  case Nil
  let ?s = "think_open @ mid @ think_close @ rest"
  have "?s \<noteq> []" using think_open_ne by simp
  moreover have "take 7 ?s = think_open" by (simp add: length_think_open)
  moreover have "after_close (drop 7 ?s) = Some rest"
    using assms(2) by (simp add: length_think_open after_close_first)
  ultimately have "re_sub_think ?s = re_sub_think rest"
    by (rule re_sub_think_open)
  then show ?case by simp
next
  case (Cons c cs)
  let ?t = "cs @ think_open @ mid @ think_close @ rest"
  have "take 7 (c # ?t) \<noteq> think_open"
  proof
    assume "take 7 (c # ?t) = think_open"
    then have tk: "take (length think_open) ((c # cs) @ think_open @ (mid @ think_close @ rest)) = think_open"
      by (simp only: length_think_open append_Cons)
    have "take (length think_open) (c # cs) = think_open"
      by (rule no_straddle [OF think_open_ne think_open_inner _ tk]) simp
    with Cons.prems show False by simp
  qed
  then have "re_sub_think (c # ?t) = c # re_sub_think ?t"
    by (rule re_sub_think_keep)
  moreover have "re_sub_think ?t = cs @ re_sub_think rest"
    using Cons by simp
  ultimately show ?case by (simp only: append_Cons)
qed

lemma strip_thinking_no_section: "\<not> has_section x \<Longrightarrow> strip_thinking x = py_strip x"
  by (simp add: strip_thinking_def re_sub_think_id)

lemma take_whole_length: "take (length m) xs = m \<Longrightarrow> length m \<le> length xs"
proof -
  assume "take (length m) xs = m"
  then have "length (take (length m) xs) = length m" by simp
  then show ?thesis by simp
qed

lemma contains_iff: "contains m s \<longleftrightarrow> (\<exists>a c. s = a @ m @ c)"
proof
  show "contains m s \<Longrightarrow> \<exists>a c. s = a @ m @ c"
  proof (induction s)
    case Nil
    then show ?case by simp
  next
    case (Cons x xs)
    show ?case
    proof (cases "take (length m) (x # xs) = m")
      case True
      then have "x # xs = [] @ m @ drop (length m) (x # xs)"
        by (metis append_Nil append_take_drop_id)
      then show ?thesis by blast
    next
      case False
      with Cons.prems have "contains m xs" by simp
      then obtain a c where "xs = a @ m @ c" using Cons.IH by blast
      then have "x # xs = (x # a) @ m @ c" by simp
      then show ?thesis by blast
    qed
  qed
next
  assume "\<exists>a c. s = a @ m @ c"
  then obtain a c where s: "s = a @ m @ c" by blast
  show "contains m s" unfolding s
  proof (induction a)
    case Nil
    have t: "take (length m) (m @ c) = m" by simp
    show ?case
    proof (cases "m @ c")
      case Nil
      then show ?thesis by simp
    next
      case (Cons y ys)
      with t have "take (length m) (y # ys) = m" by simp
      with Cons show ?thesis by simp
    qed
  next
    case (Cons x a)
    then show ?case by simp
  qed
qed

lemma after_close_Some:
  "after_close s = Some r \<Longrightarrow> \<exists>mid. s = mid @ think_close @ r \<and> \<not> contains think_close mid"
proof (induction s)
  case Nil
  then show ?case by simp
next
  case (Cons x xs)
  show ?case
  proof (cases "take 8 (x # xs) = think_close")
    case True
    with Cons.prems have r: "r = drop 8 (x # xs)" by simp
    have "x # xs = take 8 (x # xs) @ drop 8 (x # xs)" by (simp only: append_take_drop_id)
    with True r have "x # xs = [] @ think_close @ r" by simp
    moreover have "\<not> contains think_close []" by (simp add: think_close_ne)
    ultimately show ?thesis by blast
  next
    case False
    with Cons.prems have "after_close xs = Some r" by simp
    then obtain mid where m: "xs = mid @ think_close @ r" "\<not> contains think_close mid"
      using Cons.IH by blast
    have "take (length think_close) (x # mid) \<noteq> think_close"
    proof
      assume t: "take (length think_close) (x # mid) = think_close"
      then have "length think_close \<le> length (x # mid)"
        by (rule take_whole_length)
      then have "take 8 (x # xs) = take 8 (x # mid)"
        unfolding m(1) by (simp add: length_think_close)
      with t False show False by (simp add: length_think_close)
    qed
    with m(2) have "\<not> contains think_close (x # mid)" by simp
    moreover have "x # xs = (x # mid) @ think_close @ r" using m(1) by simp
    ultimately show ?thesis by blast
  qed
qed

lemma after_close_mono: "after_close (drop n s) \<noteq> None \<Longrightarrow> after_close s \<noteq> None"
proof (induction s arbitrary: n)
  case Nil
  then show ?case by simp
next
  case (Cons x xs)
  show ?case
  proof (cases n)
    case 0
    with Cons.prems show ?thesis by simp
  next
    case (Suc k)
    with Cons.prems have "after_close (drop k xs) \<noteq> None" by simp
    then have "after_close xs \<noteq> None" by (rule Cons.IH)
    then show ?thesis by simp
  qed
qed

lemma has_section_close_later:
  "has_section s \<Longrightarrow> n \<le> 7 \<Longrightarrow> after_close (drop n s) \<noteq> None"
proof (induction s arbitrary: n)
  case Nil
  then show ?case by simp
next
  case (Cons x xs)
  show ?case
  proof (cases "take 7 (x # xs) = think_open \<and> after_close (drop 7 (x # xs)) \<noteq> None")
    case True
    have "drop 7 (x # xs) = drop (7 - n) (drop n (x # xs))"
      using Cons.prems(2) by (simp del: drop_Suc_Cons)
    with True have "after_close (drop (7 - n) (drop n (x # xs))) \<noteq> None" by simp
    then show ?thesis by (rule after_close_mono)
  next
    case False
    with Cons.prems(1) have h: "has_section xs" by auto
    show ?thesis
    proof (cases n)
      case 0
      from h have "after_close (drop 0 xs) \<noteq> None" by (rule Cons.IH) simp
      then have "after_close xs \<noteq> None" by simp
      with 0 show ?thesis by simp
    next
      case (Suc k)
      with Cons.prems(2) have "k \<le> 7" by simp
      with h have "after_close (drop k xs) \<noteq> None" by (rule Cons.IH)
      with Suc show ?thesis by simp
    qed
  qed
qed

lemma leftmost_section:
  "has_section s \<Longrightarrow>
     \<exists>before inside rest. s = before @ think_open @ inside @ think_close @ rest
        \<and> \<not> contains think_open before \<and> \<not> contains think_close inside"
proof (induction s)
  case Nil
  then show ?case by simp
next
  case (Cons x xs)
  show ?case
  proof (cases "take 7 (x # xs) = think_open")
    case True
    have "after_close (drop 7 (x # xs)) \<noteq> None"
      using Cons.prems by (rule has_section_close_later) simp
    then obtain rest where "after_close (drop 7 (x # xs)) = Some rest" by blast
    then obtain inside where i: "drop 7 (x # xs) = inside @ think_close @ rest"
        "\<not> contains think_close inside"
      using after_close_Some by blast
    have "x # xs = take 7 (x # xs) @ drop 7 (x # xs)" by (simp only: append_take_drop_id)
    with True i(1) have "x # xs = [] @ think_open @ inside @ think_close @ rest" by simp
    moreover have "\<not> contains think_open []" by (simp add: think_open_ne)
    ultimately show ?thesis using i(2) by blast
  next
    case False
    with Cons.prems have "has_section xs" by simp
    then obtain before inside rest where
      d: "xs = before @ think_open @ inside @ think_close @ rest"
      "\<not> contains think_open before" "\<not> contains think_close inside"
      using Cons.IH by blast
    have "take (length think_open) (x # before) \<noteq> think_open"
    proof
      assume t: "take (length think_open) (x # before) = think_open"
      then have "length think_open \<le> length (x # before)"
        by (rule take_whole_length)
      then have "take 7 (x # xs) = take 7 (x # before)"
        unfolding d(1) by (simp add: length_think_open)
      with t False show False by (simp add: length_think_open)
    qed
    with d(2) have "\<not> contains think_open (x # before)" by simp
    moreover have "x # xs = (x # before) @ think_open @ inside @ think_close @ rest"
      using d(1) by simp
    ultimately show ?thesis using d(3) by blast
  qed
qed


lemma has_section_built: "has_section (a @ think_open @ b @ think_close @ c)"
proof (induction a)
  case Nil
  let ?s = "think_open @ b @ think_close @ c"
  obtain x xs where c: "?s = x # xs" using think_open_ne by (cases ?s) auto
  have "think_close @ c \<noteq> []" using think_close_ne by simp
  moreover have "take 8 (think_close @ c) = think_close" by (simp add: length_think_close)
  ultimately have "after_close (think_close @ c) = Some (drop 8 (think_close @ c))"
    by (rule after_close_here)
  then have "after_close (drop (length b) (b @ think_close @ c)) \<noteq> None" by simp
  then have "after_close (b @ think_close @ c) \<noteq> None" by (rule after_close_mono)
  then have "after_close (drop 7 ?s) \<noteq> None" by (simp add: length_think_open)
  moreover have "take 7 ?s = think_open" by (simp add: length_think_open)
  ultimately have "has_section (x # xs)" unfolding c by simp
  then show ?case unfolding c [symmetric] by simp
next
  case (Cons x a)
  then show ?case by simp
qed

lemma has_section_iff:
  "has_section s \<longleftrightarrow> (\<exists>a b c. s = a @ think_open @ b @ think_close @ c)"
proof
  assume "has_section s"
  then show "\<exists>a b c. s = a @ think_open @ b @ think_close @ c"
    using leftmost_section by blast
next
  assume "\<exists>a b c. s = a @ think_open @ b @ think_close @ c"
  then show "has_section s" using has_section_built by blast
qed

lemma re_sub_think_sections:
  "well_delimited segs \<Longrightarrow> \<not> has_section tail
   \<Longrightarrow> re_sub_think (with_sections segs tail) = concat (map fst segs) @ tail"
proof (induction segs)
  case Nil
  then show ?case by (simp add: re_sub_think_id)
next
  case (Cons seg segs)
  obtain before inside where seg: "seg = (before, inside)" by (cases seg)
  from Cons.prems have b: "\<not> contains think_open before" "\<not> contains think_close inside"
    and w: "well_delimited segs"
    by (simp_all add: seg)
  have "re_sub_think (before @ think_open @ inside @ think_close @ with_sections segs tail)
      = before @ re_sub_think (with_sections segs tail)"
    using b by (rule re_sub_think_section)
  also have "re_sub_think (with_sections segs tail) = concat (map fst segs) @ tail"
    using w Cons.prems(2) by (rule Cons.IH)
  finally show ?case by (simp add: seg)
qed

lemma sections_exist:
  "\<exists>segs tail. x = with_sections segs tail \<and> well_delimited segs \<and> \<not> has_section tail"
proof (induction x rule: length_induct)
  case (1 x)
  show ?case
  proof (cases "has_section x")
    case False
    then have "x = with_sections [] x \<and> well_delimited [] \<and> \<not> has_section x" by simp
    then show ?thesis by blast
  next
    case True
    then obtain before inside rest where
      d: "x = before @ think_open @ inside @ think_close @ rest"
      "\<not> contains think_open before" "\<not> contains think_close inside"
      using leftmost_section by blast
    have "length rest < length x" unfolding d(1) by (simp add: length_think_open)
    with 1 obtain segs tail where
      r: "rest = with_sections segs tail" "well_delimited segs" "\<not> has_section tail"
      by blast
    have "x = with_sections ((before, inside) # segs) tail" using d(1) r(1) by simp
    moreover have "well_delimited ((before, inside) # segs)" using d(2,3) r(2) by simp
    ultimately show ?thesis using r(3) by blast
  qed
qed

lemma py_strip_split:
  "\<exists>l r. s = l @ py_strip s @ r \<and> (\<forall>c\<in>set l. py_isspace c) \<and> (\<forall>c\<in>set r. py_isspace c)"
proof -
  let ?d = "dropWhile py_isspace s"
  have "s = takeWhile py_isspace s @ ?d" by simp
  moreover have "rev ?d = takeWhile py_isspace (rev ?d) @ dropWhile py_isspace (rev ?d)"
    by simp
  then have "rev (rev ?d) = rev (takeWhile py_isspace (rev ?d) @ dropWhile py_isspace (rev ?d))"
    by (rule arg_cong)
  then have "?d = rev (dropWhile py_isspace (rev ?d)) @ rev (takeWhile py_isspace (rev ?d))"
    by (simp only: rev_rev_ident rev_append)
  then have "?d = py_strip s @ rev (takeWhile py_isspace (rev ?d))"
    by (simp only: py_strip_def)
  ultimately have "s = takeWhile py_isspace s @ py_strip s @ rev (takeWhile py_isspace (rev ?d))"
    by simp
  moreover have "\<forall>c\<in>set (takeWhile py_isspace s). py_isspace c"
    by (auto dest: set_takeWhileD)
  moreover have "\<forall>c\<in>set (rev (takeWhile py_isspace (rev ?d))). py_isspace c"
    by (auto dest: set_takeWhileD)
  ultimately show ?thesis by blast
qed

lemma py_strip_ends:
  assumes "py_strip s \<noteq> []"
  shows "\<not> py_isspace (hd (py_strip s))" and "\<not> py_isspace (last (py_strip s))"
proof -
  let ?d = "dropWhile py_isspace s"
  have t: "py_strip s = rev (dropWhile py_isspace (rev ?d))" by (simp add: py_strip_def)
  have ne: "dropWhile py_isspace (rev ?d) \<noteq> []" using assms t by simp
  then have "\<not> py_isspace (hd (dropWhile py_isspace (rev ?d)))" by (rule hd_dropWhile)
  then show "\<not> py_isspace (last (py_strip s))"
    using ne t by (simp add: last_rev)
  have d: "?d \<noteq> []"
  proof
    assume e: "?d = []"
    have "py_strip s = []" unfolding py_strip_def e by simp
    with assms show False by simp
  qed
  then have "\<not> py_isspace (hd ?d)" by (rule hd_dropWhile)
  with d have "dropWhile py_isspace (rev (dropWhile py_isspace (rev ?d)))
      = rev (dropWhile py_isspace (rev ?d))"
    by (rule dropWhile_rev_keep [where P = py_isspace])
  then have "dropWhile py_isspace (py_strip s) = py_strip s"
    by (simp only: py_strip_def)
  with assms have "dropWhile py_isspace (py_strip s) \<noteq> []" by simp
  then have "\<not> py_isspace (hd (dropWhile py_isspace (py_strip s)))" by (rule hd_dropWhile)
  with \<open>dropWhile py_isspace (py_strip s) = py_strip s\<close>
  show "\<not> py_isspace (hd (py_strip s))" by simp
qed

text \<open>
  C7: \<open>strip_thinking\<close> removes every section, from an opening marker to the first closing
  marker after it, markers included and whatever lies between (newlines too), and trims the
  remainder. Every text is a run of sections, each after a piece without opening marker and
  each holding no closing marker, followed by a tail without section; the result is the pieces
  and the tail, joined and trimmed, and nothing else is removed. On
  \<open><think>ignored</think>true\<close> the result is \<open>true\<close>; a text without markers is only trimmed.
  Trimming takes away whitespace at both ends and nothing more.
\<close>

theorem strip_thinking_removes_sections:
  "strip_thinking ''<think>ignored</think>true'' = ''true''
   \<and> (\<not> contains think_open x \<and> \<not> contains think_close x \<longrightarrow> strip_thinking x = py_strip x)
   \<and> (well_delimited segs \<and> \<not> has_section tail \<longrightarrow>
        strip_thinking (with_sections segs tail) = py_strip (concat (map fst segs) @ tail))
   \<and> (\<exists>segs tail. y = with_sections segs tail \<and> well_delimited segs \<and> \<not> has_section tail)
   \<and> (has_section s \<longleftrightarrow> (\<exists>a b c. s = a @ think_open @ b @ think_close @ c))
   \<and> (contains m s \<longleftrightarrow> (\<exists>a c. s = a @ m @ c))
   \<and> (\<exists>l r. s = l @ py_strip s @ r \<and> (\<forall>c\<in>set l. py_isspace c) \<and> (\<forall>c\<in>set r. py_isspace c))
   \<and> (py_strip s \<noteq> [] \<longrightarrow>
        \<not> py_isspace (hd (py_strip s)) \<and> \<not> py_isspace (last (py_strip s)))"
proof (intro conjI impI)
  show "strip_thinking ''<think>ignored</think>true'' = ''true''"
    by code_simp
next
  assume "\<not> contains think_open x \<and> \<not> contains think_close x"
  then have "\<not> has_section x" by (simp add: no_open_no_section)
  then show "strip_thinking x = py_strip x" by (rule strip_thinking_no_section)
next
  assume "well_delimited segs \<and> \<not> has_section tail"
  then show "strip_thinking (with_sections segs tail) = py_strip (concat (map fst segs) @ tail)"
    by (simp add: strip_thinking_def re_sub_think_sections)
next
  show "\<exists>segs tail. y = with_sections segs tail \<and> well_delimited segs \<and> \<not> has_section tail"
    by (rule sections_exist)
next
  show "has_section s \<longleftrightarrow> (\<exists>a b c. s = a @ think_open @ b @ think_close @ c)"
    by (rule has_section_iff)
next
  show "contains m s \<longleftrightarrow> (\<exists>a c. s = a @ m @ c)"
    by (rule contains_iff)
next
  show "\<exists>l r. s = l @ py_strip s @ r \<and> (\<forall>c\<in>set l. py_isspace c) \<and> (\<forall>c\<in>set r. py_isspace c)"
    by (rule py_strip_split)
next
  assume "py_strip s \<noteq> []"
  then show "\<not> py_isspace (hd (py_strip s))" by (rule py_strip_ends)
next
  assume "py_strip s \<noteq> []"
  then show "\<not> py_isspace (last (py_strip s))" by (rule py_strip_ends)
qed

theorem strip_thinking_removes_sections_witness:
  "\<not> contains think_open ''  plain text '' \<and> \<not> contains think_close ''  plain text ''
   \<and> strip_thinking ''  plain text '' = ''plain text''
   \<and> well_delimited [(''a '', [CHR ''b'', CHR 0x0A, CHR ''c'']), ('' d'', ''e'')]
   \<and> \<not> has_section '' ''
   \<and> with_sections [(''a '', [CHR ''b'', CHR 0x0A, CHR ''c'']), ('' d'', ''e'')] '' ''
       = ''a <think>b'' @ [CHR 0x0A] @ ''c</think> d<think>e</think> ''
   \<and> strip_thinking (with_sections [(''a '', [CHR ''b'', CHR 0x0A, CHR ''c'']), ('' d'', ''e'')] '' '')
       = ''a  d''
   \<and> well_delimited [(''a'', ''x'')] \<and> \<not> has_section '' b''
   \<and> with_sections [(''a'', ''x'')] '' b'' = ''a<think>x</think> b''
   \<and> strip_thinking (with_sections [(''a'', ''x'')] '' b'') = ''a b''
   \<and> py_strip '' ok '' \<noteq> []
   \<and> \<not> py_isspace (hd (py_strip '' ok '')) \<and> \<not> py_isspace (last (py_strip '' ok ''))"
proof -
  let ?two = "[(''a '', [CHR ''b'', CHR 0x0A, CHR ''c'']), ('' d'', ''e'')]"
  have h1: "\<not> contains think_open ''  plain text '' \<and> \<not> contains think_close ''  plain text ''"
    by code_simp
  have h2: "well_delimited ?two \<and> \<not> has_section '' ''"
    by code_simp
  have h3: "well_delimited [(''a'', ''x'')] \<and> \<not> has_section '' b''"
    by code_simp
  have h4: "py_strip '' ok '' \<noteq> []"
    by code_simp
  have e1: "py_strip ''  plain text '' = ''plain text''"
    by code_simp
  have e2: "py_strip (concat (map fst ?two) @ '' '') = ''a  d''"
    by code_simp
  have e3: "py_strip (concat (map fst [(''a'', ''x'')]) @ '' b'') = ''a b''"
    by code_simp
  have w2: "with_sections ?two '' '' = ''a <think>b'' @ [CHR 0x0A] @ ''c</think> d<think>e</think> ''"
    by code_simp
  have w3: "with_sections [(''a'', ''x'')] '' b'' = ''a<think>x</think> b''"
    by code_simp
  from strip_thinking_removes_sections [where x = "''  plain text ''"] h1
  have r1: "strip_thinking ''  plain text '' = py_strip ''  plain text ''"
    by blast
  from strip_thinking_removes_sections [where segs = ?two and tail = "'' ''"] h2
  have r2: "strip_thinking (with_sections ?two '' '') = py_strip (concat (map fst ?two) @ '' '')"
    by blast
  from strip_thinking_removes_sections [where segs = "[(''a'', ''x'')]" and tail = "'' b''"] h3
  have r3: "strip_thinking (with_sections [(''a'', ''x'')] '' b'')
      = py_strip (concat (map fst [(''a'', ''x'')]) @ '' b'')"
    by blast
  from strip_thinking_removes_sections [where s = "'' ok ''"] h4
  have r4: "\<not> py_isspace (hd (py_strip '' ok '')) \<and> \<not> py_isspace (last (py_strip '' ok ''))"
    by blast
  have q1: "strip_thinking ''  plain text '' = ''plain text''"
    using r1 by (simp only: e1)
  have q2: "strip_thinking (with_sections ?two '' '') = ''a  d''"
    using r2 by (simp only: e2)
  have q3: "strip_thinking (with_sections [(''a'', ''x'')] '' b'') = ''a b''"
    using r3 by (simp only: e3)
  from h1 q1 h2 w2 q2 h3 w3 q3 h4 r4 show ?thesis by blast
qed

text \<open>
  C2 (as stated): applying \<open>strip_thinking\<close> twice gives the same as applying it once. This
  fails where the removal of a section joins the pieces of a new one: from
  \<open><thi<think>a</think>nk>b</think>\<close> the first application leaves \<open><think>b</think>\<close>, the
  second the empty string.
\<close>

theorem strip_thinking_twice_differs:
  "strip_thinking (strip_thinking ''<thi<think>a</think>nk>b</think>'')
     \<noteq> strip_thinking ''<thi<think>a</think>nk>b</think>''"
  by code_simp

text \<open>
  C2 (amended): applying \<open>strip_thinking\<close> a second time changes nothing exactly when the first
  result holds no section, that is no opening marker with a closing marker after it.
\<close>

theorem strip_thinking_idempotent_iff:
  "strip_thinking (strip_thinking x) = strip_thinking x \<longleftrightarrow> \<not> has_section (strip_thinking x)"
proof
  assume eq: "strip_thinking (strip_thinking x) = strip_thinking x"
  show "\<not> has_section (strip_thinking x)"
  proof
    assume "has_section (strip_thinking x)"
    then have "length (re_sub_think (strip_thinking x)) < length (strip_thinking x)"
      by (rule re_sub_think_shrinks)
    moreover have "length (strip_thinking (strip_thinking x))
        \<le> length (re_sub_think (strip_thinking x))"
      unfolding strip_thinking_def [of "py_strip (re_sub_think x)"] strip_thinking_def [of x]
      by (rule py_strip_length)
    ultimately show False using eq by simp
  qed
next
  assume "\<not> has_section (strip_thinking x)"
  then have "strip_thinking (strip_thinking x) = py_strip (strip_thinking x)"
    by (rule strip_thinking_no_section)
  then show "strip_thinking (strip_thinking x) = strip_thinking x"
    by (simp add: strip_thinking_def py_strip_idem)
qed

theorem strip_thinking_idempotent_iff_witness:
  "\<not> has_section (strip_thinking ''<think>a</think> ok '')
   \<and> strip_thinking (strip_thinking ''<think>a</think> ok '') = strip_thinking ''<think>a</think> ok ''
   \<and> has_section (strip_thinking ''<thi<think>a</think>nk>b</think>'')"
proof -
  have h: "\<not> has_section (strip_thinking ''<think>a</think> ok '')"
    by code_simp
  have g: "has_section (strip_thinking ''<thi<think>a</think>nk>b</think>'')"
    by code_simp
  from h g show ?thesis
    using strip_thinking_idempotent_iff [of "''<think>a</think> ok ''"] by blast
qed


section \<open>Properties of the topic tagger\<close>

lemma tag_topics_answers:
  "llm_answers E text items s = (Inr answers, s')
   \<Longrightarrow> tag_topics E text items acc s = (Inr (acc @ relevant_topics items answers), s')"
proof (induction items arbitrary: acc s answers)
  case Nil
  then show ?case by simp
next
  case (Cons item rest)
  obtain topic topic_prompt where item: "item = (topic, topic_prompt)" by (cases item)
  from Cons.prems obtain prompt_about where f: "str_format E topic_prompt text = Inr prompt_about"
    by (auto simp: item split: sum.splits)
  from Cons.prems f obtain raw s1 where
    q: "query_llm E prompt_about None 1024 0 (1 / 2) None s = (Inr raw, s1)"
    by (auto simp: item split: sum.splits prod.splits)
  from Cons.prems f q obtain llm_response where
    v: "strip_thinking_value raw = Inr llm_response"
    by (auto simp: item split: sum.splits prod.splits)
  from Cons.prems f q v obtain more where
    r: "llm_answers E text rest s1 = (Inr more, s')" and a: "answers = llm_response # more"
    by (auto simp: item split: sum.splits prod.splits)
  have "tag_topics E text rest (if is_relevant llm_response then acc @ [topic] else acc) s1
      = (Inr ((if is_relevant llm_response then acc @ [topic] else acc) @ relevant_topics rest more), s')"
    using r by (rule Cons.IH)
  then show ?case
    using f q v by (simp add: item a is_relevant_def)
qed

lemma tag_topics_raises:
  "llm_answers E text items s = (Inl e, s')
   \<Longrightarrow> tag_topics E text items acc s = (Inl e, s')"
proof (induction items arbitrary: acc s)
  case Nil
  then show ?case by simp
next
  case (Cons item rest)
  obtain topic topic_prompt where item: "item = (topic, topic_prompt)" by (cases item)
  show ?case
    using Cons.prems Cons.IH
    by (auto simp: item split: sum.splits prod.splits)
qed

lemma llm_answers_length:
  "llm_answers E text items s = (Inr answers, s') \<Longrightarrow> length answers = length items"
proof (induction items arbitrary: s answers)
  case Nil
  then show ?case by simp
next
  case (Cons item rest)
  obtain topic topic_prompt where item: "item = (topic, topic_prompt)" by (cases item)
  show ?case
    using Cons.prems Cons.IH
    by (auto simp: item split: sum.splits prod.splits)
qed

lemma relevant_topics_subset: "set (relevant_topics items answers) \<subseteq> fst ` set items"
  by (induction items answers rule: relevant_topics.induct) auto

lemma relevant_topics_member:
  "distinct (map fst items) \<Longrightarrow> length answers = length items \<Longrightarrow> i < length items
   \<Longrightarrow> fst (items ! i) \<in> set (relevant_topics items answers)
       \<longleftrightarrow> py_lower (py_strip (answers ! i)) = ''true''"
proof (induction items answers arbitrary: i rule: relevant_topics.induct)
  case (1 topic topic_prompt rest answer answers)
  have notin: "topic \<notin> set (relevant_topics rest answers)"
    using 1(3) relevant_topics_subset [of rest answers] by auto
  show ?case
  proof (cases i)
    case 0
    then show ?thesis using notin by simp
  next
    case (Suc k)
    have k: "k < length rest" using 1(5) Suc by simp
    have d: "distinct (map fst rest)" and l: "length answers = length rest"
      using 1(3,4) by simp_all
    have "rest ! k \<in> set rest" using k by simp
    then have "fst (rest ! k) \<in> fst ` set rest" by (rule imageI)
    then have ne: "fst (rest ! k) \<noteq> topic" using 1(3) by auto
    show ?thesis
    proof (cases "py_lower (py_strip answer) = ''true''")
      case True
      from 1(1) [OF True d l k] show ?thesis using Suc True ne by simp
    next
      case False
      from 1(2) [OF False d l k] show ?thesis using Suc False by simp
    qed
  qed
qed simp_all

lemma check_nuance_sharing_topics:
  "fst (check_nuance_sharing E post identified s)
     = identified @ (if quotes_nuance E post (world s) then [''nuance_sharing''] else [])"
  by (auto simp: check_nuance_sharing_def quotes_nuance_def Let_def split: prod.splits sum.splits)

lemma check_nuance_sharing_calls:
  "llm_calls (snd (check_nuance_sharing E post identified s)) = llm_calls s"
  by (auto simp: check_nuance_sharing_def Let_def split: prod.splits sum.splits)

lemma process_accepted:
  "identify_topics E post s = (Inr ts, s')
   \<Longrightarrow> process E post s =
         (\<lparr>status = ACCEPTED, result_output = post\<lparr>topics := ts\<rparr>,
           processor_name = ''topic_tagger'',
           details = Some [(''topics'', JArr (map JStr ts)), (''topic_count'', JInt (int (length ts)))],
           reason = None\<rparr>, s')"
  by (simp add: process_def)

lemma process_error:
  "identify_topics E post s = (Inl e, s')
   \<Longrightarrow> process E post s =
         (\<lparr>status = ERROR, result_output = post, processor_name = ''topic_tagger'',
           details = None, reason = Some (''Error tagging topics: '' @ exn_str e)\<rparr>, s')"
  by (simp add: process_def)

lemma identify_fetch_raises:
  "get_topic_prompts E (world s) = (Inl e, w1)
   \<Longrightarrow> identify_topics E post s = (Inl e, s\<lparr>world := w1\<rparr>)"
  by (simp add: identify_topics_def)

lemma identify_loop_raises:
  "get_topic_prompts E (world s) = (Inr items, w1)
   \<Longrightarrow> tag_topics E (content post) items [] (s\<lparr>world := w1\<rparr>) = (Inl e, s2)
   \<Longrightarrow> identify_topics E post s = (Inl e, s2)"
  by (simp add: identify_topics_def)

lemma identify_loop_returns:
  "get_topic_prompts E (world s) = (Inr items, w1)
   \<Longrightarrow> tag_topics E (content post) items [] (s\<lparr>world := w1\<rparr>) = (Inr identified, s2)
   \<Longrightarrow> identify_topics E post s =
         (Inr (fst (check_nuance_sharing E post identified s2)),
          snd (check_nuance_sharing E post identified s2))"
  by (simp add: identify_topics_def split: prod.splits)

lemma tag_topics_empty_calls: "tag_topics E text [] acc s = (Inr acc, s)"
  by simp

text \<open>
  C1: where every call of the loop returns an answer, each topic of the mapping is in the list the
  loop identifies exactly when its sanitized answer, trimmed and lower-cased, is the literal
  \<open>true\<close>; whatever else the answer is, the loop returns a list and raises nothing. \<open>True\<close>,
  \<open> true \<close> and \<open>TRUE\<close> are relevant; \<open>false\<close>, \<open>maybe\<close> and the empty string are not.
\<close>

theorem topic_added_iff_true:
  "(llm_answers E tweet_text items s = (Inr answers, s') \<and> distinct (map fst items) \<longrightarrow>
      (\<exists>identified.
          tag_topics E tweet_text items [] s = (Inr identified, s')
          \<and> (\<forall>i<length items.
                 fst (items ! i) \<in> set identified
                   \<longleftrightarrow> py_lower (py_strip (answers ! i)) = ''true'')))
   \<and> is_relevant ''True'' \<and> is_relevant '' true '' \<and> is_relevant ''TRUE''
   \<and> \<not> is_relevant ''false'' \<and> \<not> is_relevant ''maybe'' \<and> \<not> is_relevant []"
proof (intro conjI impI)
  assume a: "llm_answers E tweet_text items s = (Inr answers, s') \<and> distinct (map fst items)"
  then have "tag_topics E tweet_text items [] s = (Inr ([] @ relevant_topics items answers), s')"
    by (simp add: tag_topics_answers)
  moreover have "length answers = length items"
    using a by (auto dest: llm_answers_length)
  then have "\<forall>i<length items.
      fst (items ! i) \<in> set (relevant_topics items answers)
        \<longleftrightarrow> py_lower (py_strip (answers ! i)) = ''true''"
    using a by (simp add: relevant_topics_member)
  ultimately show "\<exists>identified.
      tag_topics E tweet_text items [] s = (Inr identified, s')
      \<and> (\<forall>i<length items.
             fst (items ! i) \<in> set identified
               \<longleftrightarrow> py_lower (py_strip (answers ! i)) = ''true'')"
    by simp
qed (code_simp+)

theorem topic_added_iff_true_witness:
  "llm_answers (scripted_env (Inr abc_prompts) (Inl (Exn ''LookupError'' ''not found'')))
       ''some text'' abc_prompts (fresh_state [''<think>hm</think>True'', ''maybe'', '' TRUE ''])
     = (Inr [''True'', ''maybe'', ''TRUE''],
        \<lparr>cls_instance = Some \<lparr>model_name = ''Qwen/Qwen3-8B''\<rparr>, world = [],
         llm_calls = [''Is it about A? some text'', ''Is it about B? some text'',
                      ''Is it about C? some text'']\<rparr>)
   \<and> distinct (map fst abc_prompts)
   \<and> (\<exists>identified.
          tag_topics (scripted_env (Inr abc_prompts) (Inl (Exn ''LookupError'' ''not found'')))
              ''some text'' abc_prompts [] (fresh_state [''<think>hm</think>True'', ''maybe'', '' TRUE ''])
            = (Inr identified,
               \<lparr>cls_instance = Some \<lparr>model_name = ''Qwen/Qwen3-8B''\<rparr>, world = [],
                llm_calls = [''Is it about A? some text'', ''Is it about B? some text'',
                             ''Is it about C? some text'']\<rparr>)
          \<and> (\<forall>i<length abc_prompts.
                 fst (abc_prompts ! i) \<in> set identified
                   \<longleftrightarrow> py_lower (py_strip ([''True'', ''maybe'', ''TRUE''] ! i)) = ''true''))"
proof -
  have h: "llm_answers (scripted_env (Inr abc_prompts) (Inl (Exn ''LookupError'' ''not found'')))
       ''some text'' abc_prompts (fresh_state [''<think>hm</think>True'', ''maybe'', '' TRUE ''])
     = (Inr [''True'', ''maybe'', ''TRUE''],
        \<lparr>cls_instance = Some \<lparr>model_name = ''Qwen/Qwen3-8B''\<rparr>, world = [],
         llm_calls = [''Is it about A? some text'', ''Is it about B? some text'',
                      ''Is it about C? some text'']\<rparr>)
   \<and> distinct (map fst abc_prompts)"
    by code_simp
  from topic_added_iff_true
    [where E = "scripted_env (Inr abc_prompts) (Inl (Exn ''LookupError'' ''not found''))"
       and tweet_text = "''some text''" and items = abc_prompts
       and s = "fresh_state [''<think>hm</think>True'', ''maybe'', '' TRUE '']"] h
  show ?thesis by blast
qed

text \<open>
  C3: where the mapping is fetched and every call of the loop returns an answer, \<open>process\<close>
  accepts, and the topics it assigns are the topics of the mapping with a relevant answer, in the
  mapping's order, followed by \<open>nuance_sharing\<close> exactly when the quote relationship matches.
\<close>

theorem process_topics_in_mapping_order:
  "get_topic_prompts E (world s) = (Inr items, w)
   \<and> llm_answers E (content post) items (s\<lparr>world := w\<rparr>) = (Inr answers, t)
   \<longrightarrow> status (fst (process E post s)) = ACCEPTED
       \<and> topics (result_output (fst (process E post s)))
           = relevant_topics items answers
             @ (if quotes_nuance E post (world t) then [''nuance_sharing''] else [])"
proof
  assume a: "get_topic_prompts E (world s) = (Inr items, w)
    \<and> llm_answers E (content post) items (s\<lparr>world := w\<rparr>) = (Inr answers, t)"
  then have "tag_topics E (content post) items [] (s\<lparr>world := w\<rparr>)
      = (Inr ([] @ relevant_topics items answers), t)"
    by (simp add: tag_topics_answers)
  with a have "identify_topics E post s =
      (Inr (fst (check_nuance_sharing E post (relevant_topics items answers) t)),
       snd (check_nuance_sharing E post (relevant_topics items answers) t))"
    by (simp add: identify_loop_returns)
  then show "status (fst (process E post s)) = ACCEPTED
       \<and> topics (result_output (fst (process E post s)))
           = relevant_topics items answers
             @ (if quotes_nuance E post (world t) then [''nuance_sharing''] else [])"
    by (simp add: process_accepted check_nuance_sharing_topics)
qed


theorem process_topics_in_mapping_order_witness:
  "get_topic_prompts (scripted_env (Inr abc_prompts) (Inr (plain_post\<lparr>account_id := ''nuance''\<rparr>)))
       (world (fresh_state [''true'', ''false'', ''true'']))
     = (Inr abc_prompts, [''true'', ''false'', ''true''])
   \<and> llm_answers (scripted_env (Inr abc_prompts) (Inr (plain_post\<lparr>account_id := ''nuance''\<rparr>)))
         (content quote_post) abc_prompts
         ((fresh_state [''true'', ''false'', ''true''])\<lparr>world := [''true'', ''false'', ''true'']\<rparr>)
     = (Inr [''true'', ''false'', ''true''],
        \<lparr>cls_instance = Some \<lparr>model_name = ''Qwen/Qwen3-8B''\<rparr>, world = [],
         llm_calls = [''Is it about A? some text'', ''Is it about B? some text'',
                      ''Is it about C? some text'']\<rparr>)
   \<and> topics (result_output (fst (process
         (scripted_env (Inr abc_prompts) (Inr (plain_post\<lparr>account_id := ''nuance''\<rparr>)))
         quote_post (fresh_state [''true'', ''false'', ''true'']))))
     = [''A'', ''C'', ''nuance_sharing'']
   \<and> topics (result_output (fst (process
         (scripted_env (Inr abc_prompts) (Inr (plain_post\<lparr>account_id := ''nuance''\<rparr>)))
         plain_post (fresh_state [''true'', ''false'', ''true'']))))
     = [''A'', ''C'']"
proof -
  let ?E = "scripted_env (Inr abc_prompts) (Inr (plain_post\<lparr>account_id := ''nuance''\<rparr>))"
  let ?s = "fresh_state [''true'', ''false'', ''true'']"
  let ?t = "\<lparr>cls_instance = Some \<lparr>model_name = ''Qwen/Qwen3-8B''\<rparr>, world = [],
         llm_calls = [''Is it about A? some text'', ''Is it about B? some text'',
                      ''Is it about C? some text'']\<rparr> :: string list state"
  have h: "get_topic_prompts ?E (world ?s) = (Inr abc_prompts, [''true'', ''false'', ''true''])
     \<and> llm_answers ?E (content quote_post) abc_prompts (?s\<lparr>world := [''true'', ''false'', ''true'']\<rparr>)
       = (Inr [''true'', ''false'', ''true''], ?t)"
    by code_simp
  have h': "get_topic_prompts ?E (world ?s) = (Inr abc_prompts, [''true'', ''false'', ''true''])
     \<and> llm_answers ?E (content plain_post) abc_prompts (?s\<lparr>world := [''true'', ''false'', ''true'']\<rparr>)
       = (Inr [''true'', ''false'', ''true''], ?t)"
    by code_simp
  have e: "relevant_topics abc_prompts [''true'', ''false'', ''true'']
      @ (if quotes_nuance ?E quote_post (world ?t) then [''nuance_sharing''] else [])
    = [''A'', ''C'', ''nuance_sharing'']"
    by code_simp
  have e': "relevant_topics abc_prompts [''true'', ''false'', ''true'']
      @ (if quotes_nuance ?E plain_post (world ?t) then [''nuance_sharing''] else [])
    = [''A'', ''C'']"
    by code_simp
  from process_topics_in_mapping_order [where E = ?E and s = ?s and post = quote_post] h
  have "topics (result_output (fst (process ?E quote_post ?s)))
      = relevant_topics abc_prompts [''true'', ''false'', ''true'']
        @ (if quotes_nuance ?E quote_post (world ?t) then [''nuance_sharing''] else [])"
    by blast
  moreover
  from process_topics_in_mapping_order [where E = ?E and s = ?s and post = plain_post] h'
  have "topics (result_output (fst (process ?E plain_post ?s)))
      = relevant_topics abc_prompts [''true'', ''false'', ''true'']
        @ (if quotes_nuance ?E plain_post (world ?t) then [''nuance_sharing''] else [])"
    by blast
  ultimately show ?thesis using h by (simp only: e e' simp_thms)
qed

text \<open>
  C4: where the loop has identified its topics and the lookup of the quoted post raises, or the
  post's data lack the quote fields, \<open>process\<close> accepts and assigns exactly the topics of the
  loop, without \<open>nuance_sharing\<close> behind them.
\<close>

theorem process_lookup_failure_contained:
  "get_topic_prompts E (world s) = (Inr items, w)
   \<and> tag_topics E (content post) items [] (s\<lparr>world := w\<rparr>) = (Inr identified, t)
   \<and> (fst (get_post E (dict_get (extra_data post) ''quoted_status_id'' JNull) (world t)) = Inl e
        \<or> map_of (extra_data post) ''is_quote_tweet'' = None
        \<or> map_of (extra_data post) ''quoted_status_id'' = None)
   \<longrightarrow> status (fst (process E post s)) = ACCEPTED
       \<and> topics (result_output (fst (process E post s))) = identified"
proof
  assume a: "get_topic_prompts E (world s) = (Inr items, w)
   \<and> tag_topics E (content post) items [] (s\<lparr>world := w\<rparr>) = (Inr identified, t)
   \<and> (fst (get_post E (dict_get (extra_data post) ''quoted_status_id'' JNull) (world t)) = Inl e
        \<or> map_of (extra_data post) ''is_quote_tweet'' = None
        \<or> map_of (extra_data post) ''quoted_status_id'' = None)"
  then have "\<not> quotes_nuance E post (world t)"
    by (auto simp: quotes_nuance_def dict_get_def)
  then have "fst (check_nuance_sharing E post identified t) = identified"
    by (simp add: check_nuance_sharing_topics)
  moreover from a have "identify_topics E post s =
      (Inr (fst (check_nuance_sharing E post identified t)),
       snd (check_nuance_sharing E post identified t))"
    by (simp add: identify_loop_returns)
  ultimately show "status (fst (process E post s)) = ACCEPTED
       \<and> topics (result_output (fst (process E post s))) = identified"
    by (simp add: process_accepted)
qed

theorem process_lookup_failure_contained_witness:
  "get_topic_prompts (scripted_env (Inr abc_prompts) (Inl (Exn ''LookupError'' ''not found'')))
       (world (fresh_state [''true'', ''false'', ''true'']))
     = (Inr abc_prompts, [''true'', ''false'', ''true''])
   \<and> tag_topics (scripted_env (Inr abc_prompts) (Inl (Exn ''LookupError'' ''not found'')))
         (content quote_post) abc_prompts []
         ((fresh_state [''true'', ''false'', ''true''])\<lparr>world := [''true'', ''false'', ''true'']\<rparr>)
     = (Inr [''A'', ''C''],
        \<lparr>cls_instance = Some \<lparr>model_name = ''Qwen/Qwen3-8B''\<rparr>, world = [],
         llm_calls = [''Is it about A? some text'', ''Is it about B? some text'',
                      ''Is it about C? some text'']\<rparr>)
   \<and> fst (get_post (scripted_env (Inr abc_prompts) (Inl (Exn ''LookupError'' ''not found'')))
              (dict_get (extra_data quote_post) ''quoted_status_id'' JNull) [])
     = Inl (Exn ''LookupError'' ''not found'')
   \<and> status (fst (process (scripted_env (Inr abc_prompts) (Inl (Exn ''LookupError'' ''not found'')))
                 quote_post (fresh_state [''true'', ''false'', ''true''])))
     = ACCEPTED
   \<and> topics (result_output (fst (process
         (scripted_env (Inr abc_prompts) (Inl (Exn ''LookupError'' ''not found'')))
         quote_post (fresh_state [''true'', ''false'', ''true'']))))
     = [''A'', ''C'']"
proof -
  let ?E = "scripted_env (Inr abc_prompts) (Inl (Exn ''LookupError'' ''not found''))"
  let ?s = "fresh_state [''true'', ''false'', ''true'']"
  let ?t = "\<lparr>cls_instance = Some \<lparr>model_name = ''Qwen/Qwen3-8B''\<rparr>, world = [],
         llm_calls = [''Is it about A? some text'', ''Is it about B? some text'',
                      ''Is it about C? some text'']\<rparr> :: string list state"
  have h: "get_topic_prompts ?E (world ?s) = (Inr abc_prompts, [''true'', ''false'', ''true''])
     \<and> tag_topics ?E (content quote_post) abc_prompts [] (?s\<lparr>world := [''true'', ''false'', ''true'']\<rparr>)
       = (Inr [''A'', ''C''], ?t)
     \<and> fst (get_post ?E (dict_get (extra_data quote_post) ''quoted_status_id'' JNull) (world ?t))
       = Inl (Exn ''LookupError'' ''not found'')"
    by code_simp
  have w: "world ?t = []" by simp
  from process_lookup_failure_contained
    [where E = ?E and s = ?s and post = quote_post and t = ?t and identified = "[''A'', ''C'']"] h
  have "status (fst (process ?E quote_post ?s)) = ACCEPTED
      \<and> topics (result_output (fst (process ?E quote_post ?s))) = [''A'', ''C'']"
    by blast
  then show ?thesis using h by (simp only: w simp_thms)
qed


lemma process_error_shape:
  "status (fst (process E post s)) = ERROR
   \<Longrightarrow> \<exists>e. fst (identify_topics E post s) = Inl e"
  by (auto simp: process_def split: prod.splits sum.splits)

lemma process_error_of:
  "fst (identify_topics E post s) = Inl e
   \<Longrightarrow> fst (process E post s) =
         \<lparr>status = ERROR, result_output = post, processor_name = ''topic_tagger'',
          details = None, reason = Some (''Error tagging topics: '' @ exn_str e)\<rparr>"
  by (cases "identify_topics E post s") (simp add: process_error)

lemma identify_fetch_raises_fst:
  "fst (get_topic_prompts E (world s)) = Inl e \<Longrightarrow> fst (identify_topics E post s) = Inl e"
  by (cases "get_topic_prompts E (world s)") (simp add: identify_fetch_raises)

lemma identify_answers_raise_fst:
  assumes "get_topic_prompts E (world s) = (Inr items, w)"
    and "fst (llm_answers E (content post) items (s\<lparr>world := w\<rparr>)) = Inl e"
  shows "fst (identify_topics E post s) = Inl e"
proof -
  obtain s' where "llm_answers E (content post) items (s\<lparr>world := w\<rparr>) = (Inl e, s')"
    using assms(2) by (cases "llm_answers E (content post) items (s\<lparr>world := w\<rparr>)") simp
  then have "tag_topics E (content post) items [] (s\<lparr>world := w\<rparr>) = (Inl e, s')"
    by (rule tag_topics_raises)
  with assms(1) show ?thesis by (simp add: identify_loop_raises)
qed

lemma awaited_never:
  "\<forall>w. \<not> cancel_now w \<Longrightarrow> awaited cancel_now f w = as_raised (f w)"
  by (simp add: awaited_def as_raised_def)

lemma query_llm_never:
  assumes "\<forall>w. \<not> cancel_now w"
  shows "query_llm_cancellable cancel_now E prompt model max_tokens temperature top_p kp s
     = as_raised (query_llm E prompt model max_tokens temperature top_p kp s)"
  by (auto simp: query_llm_cancellable_def query_llm_def awaited_never [OF assms] as_raised_def
      Let_def split: option.splits prod.splits sum.splits)

lemma tag_topics_never:
  assumes "\<forall>w. \<not> cancel_now w"
  shows "tag_topics_cancellable cancel_now E text items acc s
     = as_raised (tag_topics E text items acc s)"
proof (induction items arbitrary: acc s)
  case Nil
  show ?case by (simp add: as_raised_def)
next
  case (Cons item rest)
  obtain topic topic_prompt where item: "item = (topic, topic_prompt)" by (cases item)
  show ?case
    by (auto simp: item query_llm_never [OF assms] Cons.IH as_raised_def
        split: sum.splits prod.splits)
qed

lemma check_nuance_sharing_never:
  assumes "\<forall>w. \<not> cancel_now w"
  shows "check_nuance_sharing_cancellable cancel_now E post identified s
     = (Inr (fst (check_nuance_sharing E post identified s)),
        snd (check_nuance_sharing E post identified s))"
  by (auto simp: check_nuance_sharing_cancellable_def check_nuance_sharing_def
      awaited_never [OF assms] as_raised_def Let_def
      split: prod.splits sum.splits raised.splits)

lemma identify_topics_never:
  assumes "\<forall>w. \<not> cancel_now w"
  shows "identify_topics_cancellable cancel_now E post s = as_raised (identify_topics E post s)"
  by (auto simp: identify_topics_cancellable_def identify_topics_def awaited_never [OF assms]
      tag_topics_never [OF assms] check_nuance_sharing_never [OF assms] as_raised_def
      split: prod.splits sum.splits)

lemma process_never:
  assumes "\<forall>w. \<not> cancel_now w"
  shows "process_cancellable cancel_now E post s
     = (Inr (fst (process E post s)), snd (process E post s))"
  by (auto simp: process_cancellable_def process_def identify_topics_never [OF assms]
      as_raised_def split: prod.splits sum.splits raised.splits)

text \<open>
  C5 (as stated): any exception that escapes the orchestration is converted into an \<open>ERROR\<close>
  result and never reaches the caller. The handler is \<open>except Exception\<close>: a task cancelled
  while \<open>process\<close> waits for the prompt mapping gets \<open>CancelledError\<close> there, and it leaves
  \<open>process\<close> without a result.
\<close>

theorem process_cancelled_propagates:
  "fst (process_cancellable cancelled_at_once (scripted_env (Inr abc_prompts) (Inr plain_post))
          plain_post (fresh_state [''true'']))
     = Inl CancelledError"
  by code_simp

lemma process_cancellable_error:
  "fst (identify_topics_cancellable cancel_now E post s) = Inl (Exc e)
   \<Longrightarrow> fst (process_cancellable cancel_now E post s) =
         Inr \<lparr>status = ERROR, result_output = post, processor_name = ''topic_tagger'',
              details = None, reason = Some (''Error tagging topics: '' @ exn_str e)\<rparr>"
  by (cases "identify_topics_cancellable cancel_now E post s")
     (simp add: process_cancellable_def)

lemma identify_cancellable_fetch_raises:
  "\<not> cancel_now (world s) \<Longrightarrow> fst (get_topic_prompts E (world s)) = Inl e
   \<Longrightarrow> fst (identify_topics_cancellable cancel_now E post s) = Inl (Exc e)"
  by (cases "get_topic_prompts E (world s)")
     (simp add: identify_topics_cancellable_def awaited_def)

lemma process_cancellable_error_shape:
  "fst (process_cancellable cancel_now E post s) = Inr r \<Longrightarrow> status r = ERROR
   \<Longrightarrow> \<exists>e. r = \<lparr>status = ERROR, result_output = post, processor_name = ''topic_tagger'',
                  details = None, reason = Some (''Error tagging topics: '' @ exn_str e)\<rparr>"
  by (auto simp: process_cancellable_def split: prod.splits sum.splits raised.splits)

lemma process_cancellable_leaves:
  "fst (process_cancellable cancel_now E post s) = Inl x \<Longrightarrow> x = CancelledError"
  by (auto simp: process_cancellable_def split: prod.splits sum.splits raised.splits)

text \<open>
  C5 (amended): an instance of \<open>Exception\<close> that reaches the outer handler, such as one raised
  while the prompt mapping is fetched, becomes the one result \<open>process\<close> returns: status
  \<open>ERROR\<close>, the post as it was given, and a reason that is not empty (the fixed prefix followed
  by the exception's text). No instance of \<open>Exception\<close> leaves \<open>process\<close>; what leaves it is
  \<open>CancelledError\<close> alone, and only when the task is cancelled. A task that is never cancelled
  gets the result of \<open>process\<close>.
\<close>

theorem process_converts_exception_instances:
  "(fst (identify_topics_cancellable cancel_now E post s) = Inl (Exc e) \<longrightarrow>
      fst (process_cancellable cancel_now E post s) =
        Inr \<lparr>status = ERROR, result_output = post, processor_name = ''topic_tagger'',
             details = None, reason = Some (''Error tagging topics: '' @ exn_str e)\<rparr>)
   \<and> (\<not> cancel_now (world s) \<and> fst (get_topic_prompts E (world s)) = Inl e \<longrightarrow>
        fst (process_cancellable cancel_now E post s) =
          Inr \<lparr>status = ERROR, result_output = post, processor_name = ''topic_tagger'',
               details = None, reason = Some (''Error tagging topics: '' @ exn_str e)\<rparr>)
   \<and> (fst (process_cancellable cancel_now E post s) = Inr r \<and> status r = ERROR \<longrightarrow>
        result_output r = post \<and> (\<exists>msg. reason r = Some msg \<and> msg \<noteq> []))
   \<and> (fst (process_cancellable cancel_now E post s) = Inl x \<longrightarrow>
        x = CancelledError \<and> (\<exists>w. cancel_now w))
   \<and> ((\<forall>w. \<not> cancel_now w) \<longrightarrow>
        process_cancellable cancel_now E post s
          = (Inr (fst (process E post s)), snd (process E post s)))"
proof (intro conjI impI)
  assume "fst (identify_topics_cancellable cancel_now E post s) = Inl (Exc e)"
  then show "fst (process_cancellable cancel_now E post s) =
        Inr \<lparr>status = ERROR, result_output = post, processor_name = ''topic_tagger'',
             details = None, reason = Some (''Error tagging topics: '' @ exn_str e)\<rparr>"
    by (rule process_cancellable_error)
next
  assume "\<not> cancel_now (world s) \<and> fst (get_topic_prompts E (world s)) = Inl e"
  then have "fst (identify_topics_cancellable cancel_now E post s) = Inl (Exc e)"
    by (simp add: identify_cancellable_fetch_raises)
  then show "fst (process_cancellable cancel_now E post s) =
        Inr \<lparr>status = ERROR, result_output = post, processor_name = ''topic_tagger'',
             details = None, reason = Some (''Error tagging topics: '' @ exn_str e)\<rparr>"
    by (rule process_cancellable_error)
next
  assume a: "fst (process_cancellable cancel_now E post s) = Inr r \<and> status r = ERROR"
  then obtain e' where r: "r = \<lparr>status = ERROR, result_output = post,
      processor_name = ''topic_tagger'', details = None,
      reason = Some (''Error tagging topics: '' @ exn_str e')\<rparr>"
    using process_cancellable_error_shape by blast
  show "result_output r = post" by (simp add: r)
  show "\<exists>msg. reason r = Some msg \<and> msg \<noteq> []" by (simp add: r)
next
  assume a: "fst (process_cancellable cancel_now E post s) = Inl x"
  then show "x = CancelledError" by (rule process_cancellable_leaves)
  show "\<exists>w. cancel_now w"
  proof (rule ccontr)
    assume "\<not> (\<exists>w. cancel_now w)"
    then have "\<forall>w. \<not> cancel_now w" by blast
    then have "process_cancellable cancel_now E post s
        = (Inr (fst (process E post s)), snd (process E post s))"
      by (rule process_never)
    with a show False by simp
  qed
next
  assume "\<forall>w. \<not> cancel_now w"
  then show "process_cancellable cancel_now E post s
      = (Inr (fst (process E post s)), snd (process E post s))"
    by (rule process_never)
qed

theorem process_converts_exception_instances_witness:
  "\<not> never_cancelled (world (fresh_state [''true'']))
   \<and> fst (get_topic_prompts (scripted_env (Inl (Exn ''ConnectionError'' ''store down'')) (Inr plain_post))
            (world (fresh_state [''true''])))
     = Inl (Exn ''ConnectionError'' ''store down'')
   \<and> fst (process_cancellable never_cancelled
            (scripted_env (Inl (Exn ''ConnectionError'' ''store down'')) (Inr plain_post))
            quote_post (fresh_state [''true'']))
     = Inr \<lparr>status = ERROR, result_output = quote_post, processor_name = ''topic_tagger'',
            details = None, reason = Some ''Error tagging topics: store down''\<rparr>
   \<and> fst (identify_topics_cancellable never_cancelled (scripted_env (Inr abc_prompts) (Inr plain_post))
            quote_post (fresh_state [''true'']))
     = Inl (Exc (Exn ''ClientError'' ''request failed''))
   \<and> fst (process_cancellable never_cancelled (scripted_env (Inr abc_prompts) (Inr plain_post))
            quote_post (fresh_state [''true'']))
     = Inr \<lparr>status = ERROR, result_output = quote_post, processor_name = ''topic_tagger'',
            details = None, reason = Some ''Error tagging topics: request failed''\<rparr>"
proof -
  let ?F = "scripted_env (Inl (Exn ''ConnectionError'' ''store down'')) (Inr plain_post)"
  let ?E = "scripted_env (Inr abc_prompts) (Inr plain_post)"
  let ?s = "fresh_state [''true'']"
  have h1: "\<not> never_cancelled (world ?s)
      \<and> fst (get_topic_prompts ?F (world ?s)) = Inl (Exn ''ConnectionError'' ''store down'')"
    by code_simp
  have h2: "fst (identify_topics_cancellable never_cancelled ?E quote_post ?s)
      = Inl (Exc (Exn ''ClientError'' ''request failed''))"
    by code_simp
  have m1: "''Error tagging topics: '' @ exn_str (Exn ''ConnectionError'' ''store down'')
      = ''Error tagging topics: store down''"
    by simp
  have m2: "''Error tagging topics: '' @ exn_str (Exn ''ClientError'' ''request failed'')
      = ''Error tagging topics: request failed''"
    by simp
  from process_converts_exception_instances
    [where cancel_now = never_cancelled and E = ?F and s = ?s and post = quote_post
       and e = "Exn ''ConnectionError'' ''store down''"] h1
  have r1: "fst (process_cancellable never_cancelled ?F quote_post ?s) =
      Inr \<lparr>status = ERROR, result_output = quote_post, processor_name = ''topic_tagger'',
           details = None,
           reason = Some (''Error tagging topics: '' @ exn_str (Exn ''ConnectionError'' ''store down''))\<rparr>"
    by blast
  from process_converts_exception_instances
    [where cancel_now = never_cancelled and E = ?E and s = ?s and post = quote_post
       and e = "Exn ''ClientError'' ''request failed''"] h2
  have r2: "fst (process_cancellable never_cancelled ?E quote_post ?s) =
      Inr \<lparr>status = ERROR, result_output = quote_post, processor_name = ''topic_tagger'',
           details = None,
           reason = Some (''Error tagging topics: '' @ exn_str (Exn ''ClientError'' ''request failed''))\<rparr>"
    by blast
  from h1 h2 r1 r2 show ?thesis by (simp only: m1 m2 simp_thms)
qed

text \<open>
  C10: a result of status \<open>ERROR\<close> carries the post with the topics it had at entry: the topics
  are assigned only on the way to \<open>ACCEPTED\<close>. A failure of the mapping fetch, of a template
  substitution or of a per-topic LLM call ends in \<open>ERROR\<close>.
\<close>

theorem process_error_leaves_topics:
  "(status (fst (process E post s)) = ERROR \<longrightarrow>
      topics (result_output (fst (process E post s))) = topics post)
   \<and> (topics (result_output (fst (process E post s))) \<noteq> topics post \<longrightarrow>
        status (fst (process E post s)) = ACCEPTED)
   \<and> (fst (get_topic_prompts E (world s)) = Inl e \<longrightarrow>
        status (fst (process E post s)) = ERROR)
   \<and> (get_topic_prompts E (world s) = (Inr items, w)
        \<and> fst (llm_answers E (content post) items (s\<lparr>world := w\<rparr>)) = Inl e \<longrightarrow>
        status (fst (process E post s)) = ERROR)"
proof -
  have a: "topics (result_output (fst (process E post s))) = topics post"
    if "status (fst (process E post s)) = ERROR"
  proof -
    from that obtain x where "fst (identify_topics E post s) = Inl x"
      using process_error_shape by blast
    then show ?thesis by (simp add: process_error_of)
  qed
  have b: "status (fst (process E post s)) = ACCEPTED"
    if "topics (result_output (fst (process E post s))) \<noteq> topics post"
    using that a by (cases "status (fst (process E post s))") auto
  have c: "status (fst (process E post s)) = ERROR"
    if "fst (get_topic_prompts E (world s)) = Inl e"
    using that by (simp add: identify_fetch_raises_fst process_error_of)
  have d: "status (fst (process E post s)) = ERROR"
    if "get_topic_prompts E (world s) = (Inr items, w)
        \<and> fst (llm_answers E (content post) items (s\<lparr>world := w\<rparr>)) = Inl e"
  proof -
    from that have "fst (identify_topics E post s) = Inl e"
      by (simp add: identify_answers_raise_fst)
    then show ?thesis by (simp add: process_error_of)
  qed
  from a b c d show ?thesis by blast
qed

theorem process_error_leaves_topics_witness:
  "get_topic_prompts (scripted_env (Inr abc_prompts) (Inr plain_post)) (world (fresh_state [''true'']))
     = (Inr abc_prompts, [''true''])
   \<and> fst (llm_answers (scripted_env (Inr abc_prompts) (Inr plain_post)) (content quote_post)
            abc_prompts ((fresh_state [''true''])\<lparr>world := [''true'']\<rparr>))
     = Inl (Exn ''ClientError'' ''request failed'')
   \<and> status (fst (process (scripted_env (Inr abc_prompts) (Inr plain_post))
                    quote_post (fresh_state [''true''])))
     = ERROR
   \<and> topics (result_output (fst (process (scripted_env (Inr abc_prompts) (Inr plain_post))
                                   quote_post (fresh_state [''true'']))))
     = [''old'']"
proof -
  let ?E = "scripted_env (Inr abc_prompts) (Inr plain_post)"
  let ?s = "fresh_state [''true'']"
  have h: "get_topic_prompts ?E (world ?s) = (Inr abc_prompts, [''true''])
     \<and> fst (llm_answers ?E (content quote_post) abc_prompts (?s\<lparr>world := [''true'']\<rparr>))
       = Inl (Exn ''ClientError'' ''request failed'')"
    by code_simp
  have o: "topics quote_post = [''old'']" by code_simp
  note t = process_error_leaves_topics
    [where E = ?E and s = ?s and post = quote_post and items = abc_prompts and w = "[''true'']"
       and e = "Exn ''ClientError'' ''request failed''"]
  from t h have st: "status (fst (process ?E quote_post ?s)) = ERROR" by blast
  with t have "topics (result_output (fst (process ?E quote_post ?s))) = topics quote_post"
    by blast
  with h st show ?thesis by (simp only: o simp_thms)
qed

text \<open>
  C8: with an empty prompt mapping \<open>process\<close> calls the LLM not once and accepts; where the
  quote relationship does not match either, the topic list is empty and the details report no
  topic. No topics is not an error.
\<close>

theorem process_empty_mapping:
  "get_topic_prompts E (world s) = (Inr [], w) \<longrightarrow>
     status (fst (process E post s)) = ACCEPTED
     \<and> llm_calls (snd (process E post s)) = llm_calls s
     \<and> (\<not> quotes_nuance E post w \<longrightarrow>
          topics (result_output (fst (process E post s))) = []
          \<and> details (fst (process E post s))
              = Some [(''topics'', JArr []), (''topic_count'', JInt 0)])"
proof
  assume a: "get_topic_prompts E (world s) = (Inr [], w)"
  let ?c = "check_nuance_sharing E post [] (s\<lparr>world := w\<rparr>)"
  have "tag_topics E (content post) [] [] (s\<lparr>world := w\<rparr>) = (Inr [], s\<lparr>world := w\<rparr>)"
    by simp
  with a have i: "identify_topics E post s = (Inr (fst ?c), snd ?c)"
    by (rule identify_loop_returns)
  have calls: "llm_calls (snd ?c) = llm_calls s"
    by (simp add: check_nuance_sharing_calls)
  have tops: "fst ?c = (if quotes_nuance E post w then [''nuance_sharing''] else [])"
    by (simp add: check_nuance_sharing_topics)
  show "status (fst (process E post s)) = ACCEPTED
     \<and> llm_calls (snd (process E post s)) = llm_calls s
     \<and> (\<not> quotes_nuance E post w \<longrightarrow>
          topics (result_output (fst (process E post s))) = []
          \<and> details (fst (process E post s))
              = Some [(''topics'', JArr []), (''topic_count'', JInt 0)])"
    by (simp add: process_accepted [OF i] calls tops)
qed

theorem process_empty_mapping_witness:
  "get_topic_prompts (scripted_env (Inr []) (Inr plain_post)) (world (fresh_state [''true'']))
     = (Inr [], [''true''])
   \<and> \<not> quotes_nuance (scripted_env (Inr []) (Inr plain_post)) plain_post [''true'']
   \<and> status (fst (process (scripted_env (Inr []) (Inr plain_post)) plain_post (fresh_state [''true''])))
     = ACCEPTED
   \<and> llm_calls (snd (process (scripted_env (Inr []) (Inr plain_post)) plain_post (fresh_state [''true''])))
     = []
   \<and> topics (result_output (fst (process (scripted_env (Inr []) (Inr plain_post)) plain_post
                                   (fresh_state [''true'']))))
     = []"
proof -
  let ?E = "scripted_env (Inr []) (Inr plain_post) :: string list env"
  let ?s = "fresh_state [''true'']"
  have h: "get_topic_prompts ?E (world ?s) = (Inr [], [''true''])
      \<and> \<not> quotes_nuance ?E plain_post [''true'']"
    by code_simp
  have c: "llm_calls ?s = []" by code_simp
  note t = process_empty_mapping [where E = ?E and s = ?s and post = plain_post and w = "[''true'']"]
  from t h have "status (fst (process ?E plain_post ?s)) = ACCEPTED
     \<and> llm_calls (snd (process ?E plain_post ?s)) = llm_calls ?s
     \<and> topics (result_output (fst (process ?E plain_post ?s))) = []"
    by blast
  with h show ?thesis by (simp only: c simp_thms)
qed

section \<open>Properties of the LLM service\<close>

lemma content_of_first_choice:
  "first_choice_content data = Some c \<Longrightarrow> choices_0_message_content data = Inr c"
  by (auto simp: first_choice_content_def choices_0_message_content_def and_then_def
      split: json.splits option.splits list.splits)

lemma no_content_raises:
  assumes "first_choice_content data = None"
  shows "\<exists>x. choices_0_message_content data = Inl x"
proof (cases data)
  case (JObj body)
  show ?thesis
  proof (cases "map_of body ''choices''")
    case None
    with JObj show ?thesis
      by (simp add: choices_0_message_content_def and_then_def)
  next
    case (Some ch)
    show ?thesis
    proof (cases "getitem_0 ch")
      case (Inl x)
      with JObj Some show ?thesis
        by (simp add: choices_0_message_content_def and_then_def)
    next
      case (Inr choice)
      show ?thesis
      proof (cases choice)
        case (JObj cfields)
        from Inr this obtain others where ch: "ch = JArr (JObj cfields # others)"
          by (cases ch rule: getitem_0.cases) auto
        show ?thesis
        proof (cases "map_of cfields ''message''")
          case None
          with \<open>data = JObj body\<close> Some ch show ?thesis
            by (simp add: choices_0_message_content_def and_then_def)
        next
          case (Some message)
          with \<open>data = JObj body\<close> \<open>map_of body ''choices'' = Some ch\<close> ch
          show ?thesis
            using \<open>first_choice_content data = None\<close>
            by (cases message)
               (auto simp: choices_0_message_content_def and_then_def first_choice_content_def
                  split: option.splits)
        qed
      next
        case JNull
        with \<open>data = JObj body\<close> Some Inr show ?thesis
          by (simp add: choices_0_message_content_def and_then_def)
      next
        case (JBool b)
        with \<open>data = JObj body\<close> Some Inr show ?thesis
          by (simp add: choices_0_message_content_def and_then_def)
      next
        case (JInt n)
        with \<open>data = JObj body\<close> Some Inr show ?thesis
          by (simp add: choices_0_message_content_def and_then_def)
      next
        case (JFloat r)
        with \<open>data = JObj body\<close> Some Inr show ?thesis
          by (simp add: choices_0_message_content_def and_then_def)
      next
        case (JStr t)
        with \<open>data = JObj body\<close> Some Inr show ?thesis
          by (simp add: choices_0_message_content_def and_then_def)
      next
        case (JArr xs)
        with \<open>data = JObj body\<close> Some Inr show ?thesis
          by (simp add: choices_0_message_content_def and_then_def)
      qed
    qed
  qed
qed (simp_all add: choices_0_message_content_def and_then_def)

lemma query_unfold:
  "query E self prompt model max_tokens temperature top_p kp w =
     (case async_http_request_with_retry E ''POST'' llm_url (llm_headers E)
             (llm_payload (str_or model (model_name self)) prompt max_tokens temperature top_p) w of
        (Inl e, w') \<Rightarrow> (Inl e, w')
      | (Inr data, w') \<Rightarrow> (choices_0_message_content data, w'))"
  by (simp add: query_def call_model_def)

text \<open>
  C9: \<open>query\<close> with the model left out asks for the service's own model (the identifier
  \<open>Qwen/Qwen3-8B\<close> where the service was created without a name). It hands one request to the
  HTTP retry client. Where the client fails, \<open>query\<close> fails with the same exception, in the state
  the client left; where the client returns a body, \<open>query\<close> returns the content field of the
  body's first completion choice, and raises where the body has none.
\<close>

theorem query_returns_first_choice_content:
  "query E self prompt None max_tokens temperature top_p kp w
     = call_model E prompt (model_name self) max_tokens temperature top_p kp w
   \<and> model_name (initialize None) = ''Qwen/Qwen3-8B''
   \<and> (async_http_request_with_retry E ''POST'' llm_url (llm_headers E)
          (llm_payload (str_or model (model_name self)) prompt max_tokens temperature top_p) w
          = (Inl e, w')
        \<longrightarrow> query E self prompt model max_tokens temperature top_p kp w = (Inl e, w'))
   \<and> (async_http_request_with_retry E ''POST'' llm_url (llm_headers E)
          (llm_payload (str_or model (model_name self)) prompt max_tokens temperature top_p) w
          = (Inr data, w')
        \<longrightarrow> (case first_choice_content data of
               Some c \<Rightarrow> query E self prompt model max_tokens temperature top_p kp w = (Inr c, w')
             | None \<Rightarrow> (\<exists>x. query E self prompt model max_tokens temperature top_p kp w
                                = (Inl x, w'))))"
proof (intro conjI impI)
  show "query E self prompt None max_tokens temperature top_p kp w
     = call_model E prompt (model_name self) max_tokens temperature top_p kp w"
    by (simp add: query_def str_or_def)
next
  show "model_name (initialize None) = ''Qwen/Qwen3-8B''"
    by (simp add: initialize_def str_or_def)
next
  assume "async_http_request_with_retry E ''POST'' llm_url (llm_headers E)
          (llm_payload (str_or model (model_name self)) prompt max_tokens temperature top_p) w
          = (Inl e, w')"
  then show "query E self prompt model max_tokens temperature top_p kp w = (Inl e, w')"
    by (simp add: query_unfold)
next
  assume a: "async_http_request_with_retry E ''POST'' llm_url (llm_headers E)
          (llm_payload (str_or model (model_name self)) prompt max_tokens temperature top_p) w
          = (Inr data, w')"
  show "case first_choice_content data of
               Some c \<Rightarrow> query E self prompt model max_tokens temperature top_p kp w = (Inr c, w')
             | None \<Rightarrow> (\<exists>x. query E self prompt model max_tokens temperature top_p kp w
                                = (Inl x, w'))"
  proof (cases "first_choice_content data")
    case None
    then obtain x where "choices_0_message_content data = Inl x"
      using no_content_raises by blast
    with a None show ?thesis by (simp add: query_unfold)
  next
    case (Some c)
    then have "choices_0_message_content data = Inr c" by (rule content_of_first_choice)
    with a Some show ?thesis by (simp add: query_unfold)
  qed
qed

theorem query_returns_first_choice_content_witness:
  "async_http_request_with_retry (scripted_env (Inr []) (Inr plain_post)) ''POST'' llm_url
       (llm_headers (scripted_env (Inr []) (Inr plain_post)))
       (llm_payload (str_or None (model_name (initialize None))) ''Hello'' 1024 0 (1 / 2)) []
     = (Inl (Exn ''ClientError'' ''request failed''), [])
   \<and> query (scripted_env (Inr []) (Inr plain_post)) (initialize None) ''Hello'' None 1024 0 (1 / 2)
         None []
     = (Inl (Exn ''ClientError'' ''request failed''), [])
   \<and> async_http_request_with_retry (scripted_env (Inr []) (Inr plain_post)) ''POST'' llm_url
       (llm_headers (scripted_env (Inr []) (Inr plain_post)))
       (llm_payload (str_or None (model_name (initialize None))) ''Hello'' 1024 0 (1 / 2))
       [''Hi there'', ''later'']
     = (Inr (scripted_body ''Hi there''), [''later''])
   \<and> first_choice_content (scripted_body ''Hi there'') = Some (JStr ''Hi there'')
   \<and> query (scripted_env (Inr []) (Inr plain_post)) (initialize None) ''Hello'' None 1024 0 (1 / 2)
         None [''Hi there'', ''later'']
     = (Inr (JStr ''Hi there''), [''later''])"
proof -
  let ?E = "scripted_env (Inr []) (Inr plain_post)"
  let ?p = "llm_payload (str_or None (model_name (initialize None))) ''Hello'' 1024 0 (1 / 2)"
  have h1: "async_http_request_with_retry ?E ''POST'' llm_url (llm_headers ?E) ?p []
      = (Inl (Exn ''ClientError'' ''request failed''), [])"
    by (simp add: scripted_env_def)
  have h2: "async_http_request_with_retry ?E ''POST'' llm_url (llm_headers ?E) ?p
        [''Hi there'', ''later'']
      = (Inr (scripted_body ''Hi there''), [''later''])"
    by (simp add: scripted_env_def)
  have h3: "first_choice_content (scripted_body ''Hi there'') = Some (JStr ''Hi there'')"
    by (simp add: first_choice_content_def scripted_body_def)
  from query_returns_first_choice_content
    [where E = ?E and self = "initialize None" and prompt = "''Hello''" and model = None
       and max_tokens = 1024 and temperature = 0 and top_p = "1 / 2" and w = "[]"
       and kp = None] h1
  have r1: "query ?E (initialize None) ''Hello'' None 1024 0 (1 / 2) None []
      = (Inl (Exn ''ClientError'' ''request failed''), [])"
    by blast
  from query_returns_first_choice_content
    [where E = ?E and self = "initialize None" and prompt = "''Hello''" and model = None
       and max_tokens = 1024 and temperature = 0 and top_p = "1 / 2"
       and w = "[''Hi there'', ''later'']" and kp = None
       and data = "scripted_body ''Hi there''" and w' = "[''later'']"] h2
  have "case first_choice_content (scripted_body ''Hi there'') of
          Some c \<Rightarrow> query ?E (initialize None) ''Hello'' None 1024 0 (1 / 2) None
                      [''Hi there'', ''later''] = (Inr c, [''later''])
        | None \<Rightarrow> (\<exists>x. query ?E (initialize None) ''Hello'' None 1024 0 (1 / 2) None
                      [''Hi there'', ''later''] = (Inl x, [''later'']))"
    by blast
  then have r2: "query ?E (initialize None) ''Hello'' None 1024 0 (1 / 2) None
      [''Hi there'', ''later''] = (Inr (JStr ''Hi there''), [''later''])"
    by (simp only: h3 option.case)
  from h1 h2 h3 r1 r2 show ?thesis by (simp only: simp_thms)
qed

section \<open>Properties of concurrent callers of \<open>get_instance\<close>\<close>


lemma in_lock_cases: "in_lock p \<longleftrightarrow> p \<noteq> AtLock \<and> (\<forall>v. p \<noteq> Returned v)"
  by (cases p) auto













end
